theory Spec2Isabelle
  imports Main
begin

section \<open>JavaScript values\<close>

text \<open>
  The plugin manager of \<^verbatim>\<open>lib/plugins.ts\<close> handles values of type \<^verbatim>\<open>any\<close>: what a hook
  returns, what it throws, the fail value. They are modelled by the values the code can
  tell apart: \<^verbatim>\<open>undefined\<close>, \<^verbatim>\<open>null\<close>, booleans, strings, and objects given by their
  own properties and by the string their \<^verbatim>\<open>toString\<close> yields. Numbers, symbols and
  functions as values are left out; a string is a list of 8-bit characters.
\<close>

datatype jsval =
    JUndefined
  | JNull
  | JBool bool
  | JStr string
  | JObj "(string \<times> jsval) list" string

text \<open>What the runtime raises: a \<^verbatim>\<open>TypeError\<close>, or \<^verbatim>\<open>new Error(message)\<close>.\<close>

datatype exn = TypeError | Error string

fun truthy :: "jsval \<Rightarrow> bool" where
  "truthy JUndefined = False"
| "truthy JNull = False"
| "truthy (JBool b) = b"
| "truthy (JStr s) = (s \<noteq> [])"
| "truthy (JObj ps str) = True"

text \<open>\<^verbatim>\<open>a || b\<close>\<close>

definition js_or :: "jsval \<Rightarrow> jsval \<Rightarrow> jsval" where
  "js_or a b = (if truthy a then a else b)"

text \<open>The string a value becomes when it is concatenated to a string.\<close>

fun to_string :: "jsval \<Rightarrow> string" where
  "to_string JUndefined = ''undefined''"
| "to_string JNull = ''null''"
| "to_string (JBool b) = (if b then ''true'' else ''false'')"
| "to_string (JStr s) = s"
| "to_string (JObj ps str) = str"

text \<open>
  \<^verbatim>\<open>v.k\<close>: reading a property of \<^verbatim>\<open>undefined\<close> or \<^verbatim>\<open>null\<close> raises a \<^verbatim>\<open>TypeError\<close>; a
  boolean or a string has none of the properties read here.
\<close>

fun get_prop :: "jsval \<Rightarrow> string \<Rightarrow> exn + jsval" where
  "get_prop JUndefined k = Inl TypeError"
| "get_prop JNull k = Inl TypeError"
| "get_prop (JBool b) k = Inr JUndefined"
| "get_prop (JStr s) k = Inr JUndefined"
| "get_prop (JObj ps str) k = Inr (case map_of ps k of None \<Rightarrow> JUndefined | Some v \<Rightarrow> v)"

text \<open>\<^verbatim>\<open>s.replace(/\n/g, '\n\t\t')\<close> on a string.\<close>

definition replace_newlines :: "string \<Rightarrow> string" where
  "replace_newlines s =
     concat (map (\<lambda>c. if c = CHR 0x0A then [CHR 0x0A, CHR 0x09, CHR 0x09] else [c]) s)"

text \<open>The decimal digits of an array index, as \<^verbatim>\<open>'Plugin #' + i\<close> needs them.\<close>

fun string_of_nat :: "nat \<Rightarrow> string" where
  "string_of_nat n =
     (if n < 10 then [''0123456789'' ! n]
      else string_of_nat (n div 10) @ [''0123456789'' ! (n mod 10)])"

declare string_of_nat.simps [simp del]

text \<open>An optional string (\<^verbatim>\<open>name?: string\<close>): \<^verbatim>\<open>None\<close> is \<^verbatim>\<open>undefined\<close>.\<close>

definition truthy_str :: "string option \<Rightarrow> bool" where
  "truthy_str x = (case x of None \<Rightarrow> False | Some s \<Rightarrow> s \<noteq> [])"

definition or_str :: "string option \<Rightarrow> string option \<Rightarrow> string option" where
  "or_str a b = (if truthy_str a then a else b)"

definition str_of :: "string option \<Rightarrow> string" where
  "str_of x = (case x of None \<Rightarrow> ''undefined'' | Some s \<Rightarrow> s)"

section \<open>The data model\<close>

datatype PromiseType = Q | WEBDRIVER

record PluginConfig =
  conf_path :: "string option"
  conf_package :: "string option"
  conf_name :: "string option"

text \<open>
  What a hook does when it is called with the arguments: it returns a value that is not
  an awaitable, it throws, or it returns an awaitable, which later is resolved with a
  value or rejected with a cause (each awaitable settles at most once; one that never
  settles is one whose completion never comes). What a hook does to the results it does
  through the capabilities, which are operations of their own below.
\<close>

datatype settle = Resolves jsval | Rejects jsval

datatype outcome = Returns jsval | Throws jsval | Awaitable settle

record ProtractorPlugin =
  skipAngularStability :: bool
  name :: "string option"
  config :: "PluginConfig option"
  hooks :: "string \<Rightarrow> (jsval list \<Rightarrow> outcome) option"

text \<open>An assertion record \<^verbatim>\<open>{passed, errorMsg?, stackTrace?}\<close>: \<^verbatim>\<open>None\<close> is an absent property.\<close>

record assertion =
  passed :: bool
  errorMsg :: "jsval option"
  stackTrace :: "jsval option"

record specResult =
  description :: string
  spec_assertions :: "assertion list"

record results =
  failedCount :: nat
  specResults :: "specResult list"

text \<open>The \<^verbatim>\<open>info\<close> argument of the capabilities, \<^verbatim>\<open>{specName?: string, stackTrace?: string}\<close>.
  \<^verbatim>\<open>logError\<close> passes the \<^verbatim>\<open>stack\<close> of whatever was thrown, so the stack trace is any value.\<close>

record info =
  specName :: "string option"
  info_stackTrace :: jsval

text \<open>Modelled from the spec: the logger (\<^verbatim>\<open>lib/logger\<close>, not among the source files) is an
  external collaborator for console output. A call of one of its methods is taken to
  return without raising; the calls are recorded, in order.\<close>

datatype log_call =
    LogDebug string
  | LogInfo "string list"
  | LogWarn string
  | LogError string

text \<open>
  The \<^verbatim>\<open>Plugins\<close> object. \<^verbatim>\<open>assertions\<close> is declared \<^verbatim>\<open>{[key: string]: any[]}\<close>, a
  dictionary from spec names to arrays of assertion records, and it is a plain object:
  under a name that every object inherits (\<^verbatim>\<open>constructor\<close>, \<^verbatim>\<open>toString\<close>, ...) it holds a
  value already, which is not an array. \<open>assertions\<close> is the list of the entries that are
  arrays, in the order the keys were added, and \<open>holds_inherited\<close> says whether an
  inherited value has been stored as a property of the object's own, where the
  \<^verbatim>\<open>for ... in\<close> loop of \<^verbatim>\<open>getResults\<close> finds it. One thing is left out: \<^verbatim>\<open>for ... in\<close>
  enumerates keys that are array indices before the others; no property below depends on
  the order of enumeration. \<open>logged\<close> is what has been sent to the logger.
\<close>

record Plugins =
  pluginObjs :: "ProtractorPlugin list"
  assertions :: "(string \<times> assertion list) list"
  holds_inherited :: bool
  resultsReported :: bool
  logged :: "log_call list"

text \<open>The names of the properties of \<^verbatim>\<open>Object.prototype\<close>: each holds a function, but
  \<^verbatim>\<open>__proto__\<close>, which gives the prototype itself and cannot be stored under.\<close>

definition inherited_keys :: "string list" where
  "inherited_keys =
     [''constructor'', ''__defineGetter__'', ''__defineSetter__'', ''hasOwnProperty'',
      ''__lookupGetter__'', ''__lookupSetter__'', ''isPrototypeOf'', ''propertyIsEnumerable'',
      ''toString'', ''valueOf'', ''__proto__'', ''toLocaleString'']"

section \<open>Annotation: names and capabilities\<close>

text \<open>\<^verbatim>\<open>this.assertions[specName] = this.assertions[specName] || []; this.assertions[specName].push(assertion)\<close>
  for a spec name under which the object holds an array or nothing.\<close>

definition push_assertion ::
  "string \<Rightarrow> assertion \<Rightarrow> (string \<times> assertion list) list \<Rightarrow> (string \<times> assertion list) list" where
  "push_assertion k a store =
     (case map_of store k of
        None \<Rightarrow> store @ [(k, [a])]
      | Some old \<Rightarrow> map (\<lambda>(k', as). if k' = k then (k', as @ [a]) else (k', as)) store)"

definition empty_info :: info where
  "empty_info = \<lparr>specName = None, info_stackTrace = JUndefined\<rparr>"

text \<open>\<^verbatim>\<open>info || {}\<close>\<close>

definition info_of :: "info option \<Rightarrow> info" where
  "info_of info_arg = (case info_arg of None \<Rightarrow> empty_info | Some i \<Rightarrow> i)"

text \<open>
  \<^verbatim>\<open>addAssertion\<close>. Under an inherited name with no array of the object's own,
  \<^verbatim>\<open>this.assertions[specName] || []\<close> is the inherited value: the assignment stores it as
  a property of the object's own (for \<^verbatim>\<open>__proto__\<close> it stores nothing), and \<^verbatim>\<open>.push\<close>, which that
  value does not have, raises a \<^verbatim>\<open>TypeError\<close>.
\<close>

definition addAssertion ::
  "Plugins \<Rightarrow> ProtractorPlugin \<Rightarrow> info option \<Rightarrow> bool \<Rightarrow> jsval \<Rightarrow> Plugins \<times> (exn + unit)" where
  "addAssertion s obj info_arg passed_arg message =
     (if resultsReported s then
        (s, Inl (Error ''Cannot add new tests results, since they were already reported.''))
      else
        let info = info_of info_arg;
            spec = str_of (or_str (specName info) (Some (str_of (name obj) @ '' Plugin Tests'')));
            a0 = \<lparr>passed = passed_arg, errorMsg = None, stackTrace = None\<rparr>;
            a1 = (if \<not> passed_arg then
                    (let a = a0\<lparr>errorMsg := Some message\<rparr>
                     in if truthy (info_stackTrace info)
                        then a\<lparr>stackTrace := Some (info_stackTrace info)\<rparr> else a)
                  else a0)
        in if map_of (assertions s) spec = None \<and> spec \<in> set inherited_keys then
             (if spec = ''__proto__'' then s else s\<lparr>holds_inherited := True\<rparr>, Inl TypeError)
           else (s\<lparr>assertions := push_assertion spec a1 (assertions s)\<rparr>, Inr ()))"

definition addFailure ::
  "Plugins \<Rightarrow> ProtractorPlugin \<Rightarrow> jsval \<Rightarrow> info option \<Rightarrow> Plugins \<times> (exn + unit)" where
  "addFailure s obj message info_arg = addAssertion s obj info_arg False message"

definition addSuccess ::
  "Plugins \<Rightarrow> ProtractorPlugin \<Rightarrow> info option \<Rightarrow> Plugins \<times> (exn + unit)" where
  "addSuccess s obj options = addAssertion s obj options True JUndefined"

definition addWarning ::
  "Plugins \<Rightarrow> ProtractorPlugin \<Rightarrow> jsval \<Rightarrow> info option \<Rightarrow> Plugins" where
  "addWarning s obj message options_arg =
     (let options = info_of options_arg
      in s\<lparr>logged := logged s @
           [LogWarn (''Warning '' @
              (if truthy_str (specName options) then ''in '' @ str_of (specName options)
               else ''from '' @ [CHR 0x22] @ str_of (name obj) @ [CHR 0x22] @ '' plugin'') @
              '': '' @ to_string message)]\<rparr>)"

text \<open>The name assignment and the stored configuration of \<^verbatim>\<open>annotatePluginObj\<close>; the three
  capabilities it installs are the functions above, closed over the plugin object.\<close>

definition annotatePluginObj :: "ProtractorPlugin \<Rightarrow> PluginConfig \<Rightarrow> nat \<Rightarrow> ProtractorPlugin" where
  "annotatePluginObj obj conf i =
     obj\<lparr>name := or_str (or_str (or_str (or_str (name obj) (conf_name conf)) (conf_path conf))
                     (conf_package conf)) (Some (''Plugin #'' @ string_of_nat i)),
         config := Some conf\<rparr>"

section \<open>Reporting\<close>

definition green :: string where "green = CHR 0x1B # ''[32m''"
definition red :: string where "red = CHR 0x1B # ''[31m''"
definition normalColor :: string where "normalColor = CHR 0x1B # ''[39m''"

text \<open>The inner loop of \<^verbatim>\<open>printPluginResults\<close>, over the assertions of a failed spec.
  \<^verbatim>\<open>assertion.stackTrace.replace\<close> exists on a string only: any other truthy stack trace
  raises a \<^verbatim>\<open>TypeError\<close>, after the lines before it have been logged.\<close>

fun print_failures :: "log_call list \<Rightarrow> assertion list \<Rightarrow> log_call list \<times> exn option" where
  "print_failures lg [] = (lg, None)"
| "print_failures lg (a # as) =
     (if \<not> passed a then
        (let lg1 = lg @ [LogError ([CHR 0x09, CHR 0x09] @
                     to_string (case errorMsg a of None \<Rightarrow> JUndefined | Some m \<Rightarrow> m))]
         in case stackTrace a of
              None \<Rightarrow> print_failures lg1 as
            | Some st \<Rightarrow>
                if truthy st then
                  (case st of
                     JStr t \<Rightarrow> print_failures
                       (lg1 @ [LogError ([CHR 0x09, CHR 0x09] @ replace_newlines t)]) as
                   | _ \<Rightarrow> (lg1, Some TypeError))
                else print_failures lg1 as)
      else print_failures lg as)"

fun printPluginResults :: "log_call list \<Rightarrow> specResult list \<Rightarrow> log_call list \<times> exn option" where
  "printPluginResults lg [] = (lg, None)"
| "printPluginResults lg (r # rs) =
     (let pass = foldl (\<lambda>x y. x \<and> y) True (map passed (spec_assertions r));
          lg1 = lg @ [LogInfo [if pass then green else red, [CHR 0x09],
                               if pass then ''Pass: '' else ''Fail: '', description r, normalColor]]
      in if \<not> pass then
           (case print_failures lg1 (spec_assertions r) of
              (lg2, Some x) \<Rightarrow> (lg2, Some x)
            | (lg2, None) \<Rightarrow> printPluginResults lg2 rs)
         else printPluginResults lg1 rs)"

text \<open>The \<^verbatim>\<open>for (var specName in this.assertions)\<close> loop of \<^verbatim>\<open>getResults\<close>, over the entries
  that are arrays.\<close>

fun collect_results :: "results \<Rightarrow> (string \<times> assertion list) list \<Rightarrow> results" where
  "collect_results r [] = r"
| "collect_results r ((spec, as) # rest) =
     collect_results
       \<lparr>failedCount = failedCount r + length (filter (\<lambda>a. \<not> passed a) as),
        specResults = specResults r @ [\<lparr>description = spec, spec_assertions = as\<rparr>]\<rparr>
       rest"

text \<open>
  \<^verbatim>\<open>getResults\<close>. The loop comes first and changes nothing but the local \<^verbatim>\<open>results\<close>; at an
  entry that is not an array, \<^verbatim>\<open>.filter\<close> raises a \<^verbatim>\<open>TypeError\<close>. Then the results are
  printed, which may raise, and only then \<^verbatim>\<open>resultsReported\<close> is set.
\<close>

definition getResults :: "Plugins \<Rightarrow> Plugins \<times> (exn + results)" where
  "getResults s =
     (if holds_inherited s then (s, Inl TypeError)
      else
        let res = collect_results \<lparr>failedCount = 0, specResults = []\<rparr> (assertions s)
        in case printPluginResults (logged s) (specResults res) of
             (lg, Some x) \<Rightarrow> (s\<lparr>logged := lg\<rparr>, Inl x)
           | (lg, None) \<Rightarrow> (s\<lparr>logged := lg, resultsReported := True\<rparr>, Inr res))"

text \<open>\<^verbatim>\<open>skipAngularStability\<close>: the \<^verbatim>\<open>reduce\<close> over the loaded plugins.\<close>

definition anySkipAngularStability :: "Plugins \<Rightarrow> bool" where
  "anySkipAngularStability s =
     foldl (\<lambda>skip pluginObj. skipAngularStability pluginObj \<or> skip) False (pluginObjs s)"

section \<open>Calling one hook safely\<close>

text \<open>
  The state of the awaitable that \<^verbatim>\<open>safeCallPluginFun\<close> returns (\<^verbatim>\<open>deferred.promise\<close>; the
  deferreds of \<^verbatim>\<open>q\<close> and of \<^verbatim>\<open>webdriver.promise\<close> behave alike in what is modelled, so
  \<open>promiseType\<close> selects nothing here): fulfilled, rejected, or not settled. While it is not settled
  it either waits for the awaitable the hook returned (\<open>Pending\<close>, with what that one
  will settle to), or nothing is left that could settle it (\<open>Stalled\<close>).
\<close>

datatype awaitable = Fulfilled jsval | Rejected jsval | Pending settle | Stalled

text \<open>The \<^verbatim>\<open>TypeError\<close> that \<^verbatim>\<open>pluginObj[funName].apply\<close> raises when the plugin has no such
  property (the wording of the message is the engine's).\<close>

definition not_a_function :: jsval where
  "not_a_function =
     JObj [(''message'', JStr (''Cannot read property '' @ [CHR 0x27] @ ''apply'' @ [CHR 0x27] @
                              '' of undefined'')),
           (''stack'', JStr (''TypeError: Cannot read property '' @ [CHR 0x27] @ ''apply'' @
                            [CHR 0x27] @ '' of undefined''))]
          (''TypeError: Cannot read property '' @ [CHR 0x27] @ ''apply'' @ [CHR 0x27] @
           '' of undefined'')"

definition invoke :: "ProtractorPlugin \<Rightarrow> string \<Rightarrow> jsval list \<Rightarrow> outcome" where
  "invoke pluginObj funName args =
     (case hooks pluginObj funName of None \<Rightarrow> Throws not_a_function | Some h \<Rightarrow> h args)"

text \<open>\<^verbatim>\<open>logError\<close>: the result \<open>Inr v\<close> is \<^verbatim>\<open>deferred.fulfill(v)\<close>; \<open>Inl x\<close> is an exception
  raised before the deferred was fulfilled.\<close>

definition logError ::
  "Plugins \<Rightarrow> ProtractorPlugin \<Rightarrow> string \<Rightarrow> jsval \<Rightarrow> jsval \<Rightarrow> Plugins \<times> (exn + jsval)" where
  "logError s pluginObj funName failReturnVal e =
     (if resultsReported s then
        (case get_prop e ''message'' of
           Inl x \<Rightarrow> (s, Inl x)
         | Inr m \<Rightarrow>
            (case get_prop e ''stack'' of
               Inl x \<Rightarrow> (s, Inl x)
             | Inr st \<Rightarrow>
                (case printPluginResults (logged s)
                        [\<lparr>description = str_of (name pluginObj) @ '' Runtime'',
                          spec_assertions =
                            [\<lparr>passed = False,
                              errorMsg = Some (JStr (''Failure during '' @ funName @ '': '' @
                                                     to_string (js_or m e))),
                              stackTrace = Some st\<rparr>]\<rparr>] of
                   (lg, Some x) \<Rightarrow> (s\<lparr>logged := lg\<rparr>, Inl x)
                 | (lg, None) \<Rightarrow> (s\<lparr>logged := lg\<rparr>, Inr failReturnVal))))
      else
        (case get_prop e ''message'' of
           Inl x \<Rightarrow> (s, Inl x)
         | Inr m \<Rightarrow>
            (case get_prop e ''stack'' of
               Inl x \<Rightarrow> (s, Inl x)
             | Inr st \<Rightarrow>
                (case addFailure s pluginObj
                        (js_or (JStr (''Failure during '' @ funName @ '': '' @ to_string m)) e)
                        (Some \<lparr>specName = None, info_stackTrace = st\<rparr>) of
                   (s', Inl x) \<Rightarrow> (s', Inl x)
                 | (s', Inr u) \<Rightarrow> (s', Inr failReturnVal)))))"

text \<open>The synchronous part of \<^verbatim>\<open>safeCallPluginFun\<close>: an exception of \<^verbatim>\<open>logError\<close> inside the
  \<^verbatim>\<open>catch\<close> block leaves the function.\<close>

definition safeCallPluginFun ::
  "Plugins \<Rightarrow> ProtractorPlugin \<Rightarrow> string \<Rightarrow> jsval list \<Rightarrow> PromiseType \<Rightarrow> jsval
     \<Rightarrow> Plugins \<times> (exn + awaitable)" where
  "safeCallPluginFun s pluginObj funName args promiseType failReturnVal =
     (case invoke pluginObj funName args of
        Returns result \<Rightarrow> (s, Inr (Fulfilled result))
      | Awaitable st \<Rightarrow> (s, Inr (Pending st))
      | Throws e \<Rightarrow>
          (case logError s pluginObj funName failReturnVal e of
             (s', Inl x) \<Rightarrow> (s', Inl x)
           | (s', Inr v) \<Rightarrow> (s', Inr (Fulfilled v))))"

text \<open>The handlers given to \<^verbatim>\<open>result.then\<close>, run when the hook's awaitable settles. An
  exception of \<^verbatim>\<open>logError\<close> in the rejection handler is swallowed by the promise library,
  and the deferred is never fulfilled.\<close>

definition hookSettled ::
  "Plugins \<Rightarrow> ProtractorPlugin \<Rightarrow> string \<Rightarrow> jsval \<Rightarrow> settle \<Rightarrow> Plugins \<times> awaitable" where
  "hookSettled s pluginObj funName failReturnVal st =
     (case st of
        Resolves v \<Rightarrow> (s, Fulfilled v)
      | Rejects e \<Rightarrow>
          (case logError s pluginObj funName failReturnVal e of
             (s', Inl x) \<Rightarrow> (s', Stalled)
           | (s', Inr v) \<Rightarrow> (s', Fulfilled v)))"

section \<open>Dispatch to all plugins\<close>

text \<open>An entry of the \<^verbatim>\<open>promises\<close> array, with the plugin whose hook was called for it.\<close>

record call =
  callee :: ProtractorPlugin
  promise :: awaitable

fun forEach_pluginObj ::
  "Plugins \<Rightarrow> string \<Rightarrow> jsval list \<Rightarrow> PromiseType \<Rightarrow> jsval \<Rightarrow> ProtractorPlugin list \<Rightarrow> call list
     \<Rightarrow> Plugins \<times> (exn + call list)" where
  "forEach_pluginObj s funName args promiseType failReturnVal [] promises = (s, Inr promises)"
| "forEach_pluginObj s funName args promiseType failReturnVal (pluginObj # rest) promises =
     (if hooks pluginObj funName \<noteq> None then
        (case safeCallPluginFun s pluginObj funName args promiseType failReturnVal of
           (s', Inl x) \<Rightarrow> (s', Inl x)
         | (s', Inr a) \<Rightarrow>
             forEach_pluginObj s' funName args promiseType failReturnVal rest
               (promises @ [\<lparr>callee = pluginObj, promise = a\<rparr>]))
      else forEach_pluginObj s funName args promiseType failReturnVal rest promises)"

text \<open>The function \<^verbatim>\<open>pluginFunFactory\<close> returns, up to the call of \<^verbatim>\<open>all\<close>.\<close>

definition pluginFunFactory ::
  "string \<Rightarrow> PromiseType \<Rightarrow> jsval \<Rightarrow> Plugins \<Rightarrow> jsval list \<Rightarrow> Plugins \<times> (exn + call list)" where
  "pluginFunFactory funName promiseType failReturnVal s args =
     forEach_pluginObj s funName args promiseType failReturnVal (pluginObjs s) []"

text \<open>The eight dispatch points (\<^verbatim>\<open>setup\<close> is written \<open>setupHook\<close>).\<close>

definition setupHook :: "Plugins \<Rightarrow> jsval list \<Rightarrow> Plugins \<times> (exn + call list)" where
  "setupHook = pluginFunFactory ''setup'' Q JUndefined"
definition teardown :: "Plugins \<Rightarrow> jsval list \<Rightarrow> Plugins \<times> (exn + call list)" where
  "teardown = pluginFunFactory ''teardown'' Q JUndefined"
definition postResults :: "Plugins \<Rightarrow> jsval list \<Rightarrow> Plugins \<times> (exn + call list)" where
  "postResults = pluginFunFactory ''postResults'' Q JUndefined"
definition postTest :: "Plugins \<Rightarrow> jsval list \<Rightarrow> Plugins \<times> (exn + call list)" where
  "postTest = pluginFunFactory ''postTest'' Q JUndefined"
definition onPageLoad :: "Plugins \<Rightarrow> jsval list \<Rightarrow> Plugins \<times> (exn + call list)" where
  "onPageLoad = pluginFunFactory ''onPageLoad'' WEBDRIVER JUndefined"
definition onPageStable :: "Plugins \<Rightarrow> jsval list \<Rightarrow> Plugins \<times> (exn + call list)" where
  "onPageStable = pluginFunFactory ''onPageStable'' WEBDRIVER JUndefined"
definition waitForPromise :: "Plugins \<Rightarrow> jsval list \<Rightarrow> Plugins \<times> (exn + call list)" where
  "waitForPromise = pluginFunFactory ''waitForPromise'' WEBDRIVER JUndefined"
definition waitForCondition :: "Plugins \<Rightarrow> jsval list \<Rightarrow> Plugins \<times> (exn + call list)" where
  "waitForCondition = pluginFunFactory ''waitForCondition'' WEBDRIVER (JBool True)"

text \<open>
  The awaitable of \<^verbatim>\<open>q.all(promises)\<close> and \<^verbatim>\<open>webdriver.promise.all(promises)\<close>: rejected
  when an entry is rejected, fulfilled with the array of the values, in the order of the
  entries, when every entry is fulfilled, and not settled otherwise.
\<close>

datatype combined = AllFulfilled "jsval list" | AllRejected jsval | NotSettled

fun promise_all :: "awaitable list \<Rightarrow> combined" where
  "promise_all [] = AllFulfilled []"
| "promise_all (Rejected e # ps) = AllRejected e"
| "promise_all (Fulfilled v # ps) =
     (case promise_all ps of
        AllFulfilled vs \<Rightarrow> AllFulfilled (v # vs)
      | AllRejected e \<Rightarrow> AllRejected e
      | NotSettled \<Rightarrow> NotSettled)"
| "promise_all (p # ps) =
     (case promise_all ps of AllRejected e \<Rightarrow> AllRejected e | _ \<Rightarrow> NotSettled)"

text \<open>
  Completion: the awaitable a hook returned for entry \<open>i\<close> settles, and the handlers of
  that entry run. A schedule is the order in which the entries complete.
\<close>

definition settle_call :: "string \<Rightarrow> jsval \<Rightarrow> Plugins \<times> call list \<Rightarrow> nat \<Rightarrow> Plugins \<times> call list" where
  "settle_call funName failReturnVal sc i =
     (case sc of (s, cs) \<Rightarrow>
        if i < length cs then
          (case promise (cs ! i) of
             Pending st \<Rightarrow>
               (case hookSettled s (callee (cs ! i)) funName failReturnVal st of
                  (s', a) \<Rightarrow> (s', cs[i := (cs ! i)\<lparr>promise := a\<rparr>]))
           | _ \<Rightarrow> (s, cs))
        else (s, cs))"

definition run_schedule ::
  "string \<Rightarrow> jsval \<Rightarrow> Plugins \<Rightarrow> call list \<Rightarrow> nat list \<Rightarrow> Plugins \<times> call list" where
  "run_schedule funName failReturnVal s cs sched =
     foldl (settle_call funName failReturnVal) (s, cs) sched"

section \<open>Runs\<close>

text \<open>The construction of the \<^verbatim>\<open>Plugins\<close> object, from the configuration entries with the
  plugin object resolved for each (by \<^verbatim>\<open>require\<close> or as the inline definition; this
  resolution is outside the model).\<close>

fun load_plugins :: "Plugins \<Rightarrow> (PluginConfig \<times> ProtractorPlugin) list \<Rightarrow> nat \<Rightarrow> Plugins" where
  "load_plugins s [] i = s"
| "load_plugins s ((pluginConf, obj) # rest) i =
     (let pluginObj = annotatePluginObj obj pluginConf i
      in load_plugins
           (s\<lparr>pluginObjs := pluginObjs s @ [pluginObj],
              logged := logged s @
                [LogDebug (''Plugin '' @ [CHR 0x22] @ str_of (name pluginObj) @ [CHR 0x22] @
                           '' loaded.'')]\<rparr>)
           rest (Suc i))"

definition new_Plugins :: "(PluginConfig \<times> ProtractorPlugin) list \<Rightarrow> Plugins" where
  "new_Plugins pluginConfs =
     load_plugins
       \<lparr>pluginObjs = [], assertions = [], holds_inherited = False, resultsReported = False,
        logged = []\<rparr>
       pluginConfs 0"

text \<open>What can happen to a \<^verbatim>\<open>Plugins\<close> object after its construction: a plugin uses one of
  its capabilities, the runner asks for the results, dispatches a hook or calls one hook
  through \<^verbatim>\<open>safeCallPluginFun\<close>, and the awaitable a hook returned settles.\<close>

datatype op =
    OpAddFailure ProtractorPlugin jsval "info option"
  | OpAddSuccess ProtractorPlugin "info option"
  | OpAddWarning ProtractorPlugin jsval "info option"
  | OpGetResults
  | OpDispatch string PromiseType jsval "jsval list"
  | OpSafeCall ProtractorPlugin string "jsval list" PromiseType jsval
  | OpSettled ProtractorPlugin string jsval settle

fun exec :: "Plugins \<Rightarrow> op \<Rightarrow> Plugins" where
  "exec s (OpAddFailure obj message i) = fst (addFailure s obj message i)"
| "exec s (OpAddSuccess obj i) = fst (addSuccess s obj i)"
| "exec s (OpAddWarning obj message i) = addWarning s obj message i"
| "exec s OpGetResults = fst (getResults s)"
| "exec s (OpDispatch funName promiseType failReturnVal args) =
     fst (pluginFunFactory funName promiseType failReturnVal s args)"
| "exec s (OpSafeCall obj funName args promiseType failReturnVal) =
     fst (safeCallPluginFun s obj funName args promiseType failReturnVal)"
| "exec s (OpSettled obj funName failReturnVal st) =
     fst (hookSettled s obj funName failReturnVal st)"

definition run :: "Plugins \<Rightarrow> op list \<Rightarrow> Plugins" where
  "run s ops = foldl exec s ops"

section \<open>Notions used in the properties\<close>

text \<open>The first non-empty value of a list of optional strings.\<close>

fun first_nonempty :: "string option list \<Rightarrow> string option" where
  "first_nonempty [] = None"
| "first_nonempty (None # xs) = first_nonempty xs"
| "first_nonempty (Some s # xs) = (if s = [] then first_nonempty xs else Some s)"

text \<open>All assertion records of a store, and the number of those that did not pass.\<close>

definition all_assertions :: "(string \<times> assertion list) list \<Rightarrow> assertion list" where
  "all_assertions store = concat (map snd store)"

definition failed_total :: "(string \<times> assertion list) list \<Rightarrow> nat" where
  "failed_total store = length (filter (\<lambda>a. \<not> passed a) (all_assertions store))"

text \<open>The shape of an assertion record: a passed one has neither message nor stack trace;
  a failed one has a message, and a stack trace only if it is a truthy value.\<close>

definition well_shaped :: "assertion \<Rightarrow> bool" where
  "well_shaped a =
     (if passed a then errorMsg a = None \<and> stackTrace a = None
      else errorMsg a \<noteq> None \<and> (case stackTrace a of None \<Rightarrow> True | Some st \<Rightarrow> truthy st))"

text \<open>Whether every failed record of a list can be printed: its stack trace, if it has
  one, is a string or is not truthy.\<close>

fun printable :: "assertion list \<Rightarrow> bool" where
  "printable [] = True"
| "printable (a # as) =
     ((passed a \<or>
       (case stackTrace a of
          None \<Rightarrow> True
        | Some st \<Rightarrow> (case st of JStr t \<Rightarrow> True | _ \<Rightarrow> \<not> truthy st))) \<and>
      printable as)"

text \<open>The spec name a capability of \<open>obj\<close> files an assertion under.\<close>

definition spec_key :: "ProtractorPlugin \<Rightarrow> info option \<Rightarrow> string" where
  "spec_key obj info_arg =
     (case specName (info_of info_arg) of
        None \<Rightarrow> str_of (name obj) @ '' Plugin Tests''
      | Some n \<Rightarrow> if n = [] then str_of (name obj) @ '' Plugin Tests'' else n)"

text \<open>The value a plugin contributes to the array of a dispatch: what its hook returns or
  resolves to, and the fail value when the hook throws or its awaitable is rejected.\<close>

definition hook_result :: "string \<Rightarrow> jsval list \<Rightarrow> jsval \<Rightarrow> ProtractorPlugin \<Rightarrow> jsval" where
  "hook_result funName args failReturnVal pluginObj =
     (case invoke pluginObj funName args of
        Returns v \<Rightarrow> v
      | Throws e \<Rightarrow> failReturnVal
      | Awaitable (Resolves v) \<Rightarrow> v
      | Awaitable (Rejects e) \<Rightarrow> failReturnVal)"

definition has_hook :: "string \<Rightarrow> ProtractorPlugin \<Rightarrow> bool" where
  "has_hook funName pluginObj = (hooks pluginObj funName \<noteq> None)"

text \<open>Reading a property of a value that has properties.\<close>

definition prop_of :: "jsval \<Rightarrow> string \<Rightarrow> jsval" where
  "prop_of v k = (case get_prop v k of Inl x \<Rightarrow> JUndefined | Inr w \<Rightarrow> w)"

definition nullish :: "jsval \<Rightarrow> bool" where
  "nullish v = (v = JUndefined \<or> v = JNull)"

text \<open>The causes on which \<^verbatim>\<open>logError\<close> itself raises an exception: \<^verbatim>\<open>undefined\<close> and \<^verbatim>\<open>null\<close>,
  and, once the results are reported, a cause whose \<^verbatim>\<open>stack\<close> is truthy and not a string.\<close>

definition raises :: "bool \<Rightarrow> jsval \<Rightarrow> bool" where
  "raises reported e =
     (nullish e \<or>
      (reported \<and> truthy (prop_of e ''stack'') \<and>
       (case prop_of e ''stack'' of JStr t \<Rightarrow> False | _ \<Rightarrow> True)))"

text \<open>The entry of the \<^verbatim>\<open>promises\<close> array for a plugin right after the synchronous call, and the
  state of an entry once the awaitable of its hook has settled.\<close>

definition initial_promise :: "string \<Rightarrow> jsval list \<Rightarrow> jsval \<Rightarrow> ProtractorPlugin \<Rightarrow> awaitable" where
  "initial_promise funName args failReturnVal pluginObj =
     (case invoke pluginObj funName args of
        Returns v \<Rightarrow> Fulfilled v
      | Throws e \<Rightarrow> Fulfilled failReturnVal
      | Awaitable st \<Rightarrow> Pending st)"

fun settled_promise :: "bool \<Rightarrow> jsval \<Rightarrow> awaitable \<Rightarrow> awaitable" where
  "settled_promise reported failReturnVal (Pending (Resolves v)) = Fulfilled v"
| "settled_promise reported failReturnVal (Pending (Rejects e)) =
     (if raises reported e then Stalled else Fulfilled failReturnVal)"
| "settled_promise reported failReturnVal a = a"

text \<open>Every assertion record of the store is well shaped.\<close>

definition shaped :: "Plugins \<Rightarrow> bool" where
  "shaped s = (\<forall>a \<in> set (all_assertions (assertions s)). well_shaped a)"

section \<open>Example plugins and runs\<close>

text \<open>\<^verbatim>\<open>new Error('boom')\<close>\<close>

definition boom :: jsval where
  "boom = JObj [(''message'', JStr ''boom''), (''stack'', JStr ''Error: boom'')] ''Error: boom''"

text \<open>An inline plugin object without a name, with one hook.\<close>

definition plugin_with :: "string \<Rightarrow> (jsval list \<Rightarrow> outcome) \<Rightarrow> ProtractorPlugin" where
  "plugin_with funName h =
     \<lparr>skipAngularStability = False, name = None, config = None,
      hooks = (\<lambda>g. if g = funName then Some h else None)\<rparr>"

definition conf_named :: "string \<Rightarrow> PluginConfig" where
  "conf_named n = \<lparr>conf_path = None, conf_package = None, conf_name = Some n\<rparr>"

text \<open>Plugins B and C, as the constructor annotates them, and the run in which B adds two
  successes and C one failure to the spec \<^verbatim>\<open>S\<close>.\<close>

definition plugin_B :: ProtractorPlugin where
  "plugin_B = annotatePluginObj (plugin_with ''setup'' (\<lambda>args. Returns JUndefined)) (conf_named ''B'') 0"

definition plugin_C :: ProtractorPlugin where
  "plugin_C = annotatePluginObj (plugin_with ''setup'' (\<lambda>args. Returns JUndefined)) (conf_named ''C'') 1"

definition in_spec_S :: "info option" where
  "in_spec_S = Some \<lparr>specName = Some ''S'', info_stackTrace = JUndefined\<rparr>"

definition scenario_S :: Plugins where
  "scenario_S =
     run (new_Plugins [(conf_named ''B'', plugin_with ''setup'' (\<lambda>args. Returns JUndefined)),
                       (conf_named ''C'', plugin_with ''setup'' (\<lambda>args. Returns JUndefined))])
       [OpAddSuccess plugin_B in_spec_S, OpAddSuccess plugin_B in_spec_S,
        OpAddFailure plugin_C (JStr ''x'') in_spec_S]"

text \<open>What \<^verbatim>\<open>getResults\<close> returns in that run.\<close>

definition results_S :: results where
  "results_S = \<lparr>failedCount = 1, specResults =
      [\<lparr>description = ''S'', spec_assertions =
          [\<lparr>passed = True, errorMsg = None, stackTrace = None\<rparr>,
           \<lparr>passed = True, errorMsg = None, stackTrace = None\<rparr>,
           \<lparr>passed = False, errorMsg = Some (JStr ''x''), stackTrace = None\<rparr>]\<rparr>]\<rparr>"

text \<open>Plugin A, whose \<^verbatim>\<open>setup\<close> hook does \<open>h\<close>, and the \<^verbatim>\<open>Plugins\<close> object that holds it alone.\<close>

definition plugin_A :: "(jsval list \<Rightarrow> outcome) \<Rightarrow> ProtractorPlugin" where
  "plugin_A h = annotatePluginObj (plugin_with ''setup'' h) (conf_named ''A'') 0"

definition Plugins_A :: "(jsval list \<Rightarrow> outcome) \<Rightarrow> Plugins" where
  "Plugins_A h = new_Plugins [(conf_named ''A'', plugin_with ''setup'' h)]"

text \<open>Plugin W, whose \<^verbatim>\<open>waitForCondition\<close> hook throws \<^verbatim>\<open>new Error('boom')\<close>.\<close>

definition plugin_W :: ProtractorPlugin where
  "plugin_W =
     annotatePluginObj (plugin_with ''waitForCondition'' (\<lambda>args. Throws boom)) (conf_named ''W'') 0"

definition Plugins_W :: Plugins where
  "Plugins_W = new_Plugins [(conf_named ''W'', plugin_with ''waitForCondition'' (\<lambda>args. Throws boom))]"

text \<open>Three plugins: the \<^verbatim>\<open>setup\<close> of the first returns an awaitable that is resolved with
  \<^verbatim>\<open>'a'\<close>, the second has no \<^verbatim>\<open>setup\<close>, the \<^verbatim>\<open>setup\<close> of the third returns an awaitable that is
  rejected with \<^verbatim>\<open>new Error('boom')\<close>.\<close>

definition plugin_P1 :: ProtractorPlugin where
  "plugin_P1 =
     annotatePluginObj (plugin_with ''setup'' (\<lambda>args. Awaitable (Resolves (JStr ''a''))))
       (conf_named ''P1'') 0"

definition plugin_P3 :: ProtractorPlugin where
  "plugin_P3 =
     annotatePluginObj (plugin_with ''setup'' (\<lambda>args. Awaitable (Rejects boom)))
       (conf_named ''P3'') 2"

definition trio :: Plugins where
  "trio = new_Plugins
     [(conf_named ''P1'', plugin_with ''setup'' (\<lambda>args. Awaitable (Resolves (JStr ''a'')))),
      (conf_named ''P2'', plugin_with ''teardown'' (\<lambda>args. Returns JUndefined)),
      (conf_named ''P3'', plugin_with ''setup'' (\<lambda>args. Awaitable (Rejects boom)))]"

definition trio_calls :: "call list" where
  "trio_calls =
     [\<lparr>callee = plugin_P1, promise = Pending (Resolves (JStr ''a''))\<rparr>,
      \<lparr>callee = plugin_P3, promise = Pending (Rejects boom)\<rparr>]"

text \<open>A cause whose \<^verbatim>\<open>stack\<close> is \<^verbatim>\<open>true\<close>, as in \<^verbatim>\<open>throw {message: 'm', stack: true}\<close>, and
  the state after the \<^verbatim>\<open>setup\<close> of plugin A has thrown it.\<close>

definition odd_stack :: jsval where
  "odd_stack = JObj [(''message'', JStr ''m''), (''stack'', JBool True)] ''[object Object]''"

definition after_odd_stack :: Plugins where
  "after_odd_stack = fst (setupHook (Plugins_A (\<lambda>args. Throws odd_stack)) [])"

text \<open>The state after plugin B has called \<^verbatim>\<open>addSuccess({specName: 'constructor'})\<close>.\<close>

definition after_constructor :: Plugins where
  "after_constructor =
     fst (addSuccess (new_Plugins []) plugin_B
            (Some \<lparr>specName = Some ''constructor'', info_stackTrace = JUndefined\<rparr>))"

section \<open>Properties\<close>

subsection \<open>Printing, the capabilities and the store\<close>

lemma print_failures_snd:
  "snd (print_failures lg as) = snd (print_failures lg' as)"
proof (induction as arbitrary: lg lg')
  case Nil
  then show ?case by simp
next
  case (Cons a as)
  show ?case
  proof (cases "passed a")
    case True
    then show ?thesis using Cons.IH by simp
  next
    case False
    show ?thesis
    proof (cases "stackTrace a")
      case None
      then show ?thesis using False Cons.IH by (simp add: Let_def)
    next
      case (Some st)
      then show ?thesis using False Cons.IH
        by (cases st) (simp_all add: Let_def)
    qed
  qed
qed

lemma printPluginResults_snd:
  "snd (printPluginResults lg rs) = snd (printPluginResults lg' rs)"
proof (induction rs arbitrary: lg lg')
  case Nil
  then show ?case by simp
next
  case (Cons r rs)
  let ?pass = "foldl (\<lambda>x y. x \<and> y) True (map passed (spec_assertions r))"
  let ?l = "\<lambda>lg. lg @ [LogInfo [if ?pass then green else red, [CHR 0x09],
                               if ?pass then ''Pass: '' else ''Fail: '', description r, normalColor]]"
  show ?case
  proof (cases ?pass)
    case True
    then show ?thesis using Cons.IH by (simp add: Let_def)
  next
    case False
    obtain l2 x where p: "print_failures (?l lg) (spec_assertions r) = (l2, x)"
      by (cases "print_failures (?l lg) (spec_assertions r)")
    obtain l2' x' where p': "print_failures (?l lg') (spec_assertions r) = (l2', x')"
      by (cases "print_failures (?l lg') (spec_assertions r)")
    have "x = x'"
      using print_failures_snd [of "?l lg" "spec_assertions r" "?l lg'"] p p' by simp
    then show ?thesis
      using False p p' Cons.IH [of l2 l2'] by (cases x') (auto simp: Let_def)
  qed
qed

lemma addAssertion_reported:
  "resultsReported s \<Longrightarrow>
   addAssertion s obj i p m =
     (s, Inl (Error ''Cannot add new tests results, since they were already reported.''))"
  by (simp add: addAssertion_def)

lemma spec_key_eq:
  "str_of (or_str (specName (info_of i)) (Some (str_of (name obj) @ '' Plugin Tests''))) = spec_key obj i"
  by (simp add: spec_key_def or_str_def truthy_str_def str_of_def split: option.splits)

lemma tests_key_not_inherited [simp]: "n @ '' Plugin Tests'' \<notin> set inherited_keys"
proof
  assume "n @ '' Plugin Tests'' \<in> set inherited_keys"
  then have "last (n @ '' Plugin Tests'') \<in> last ` set inherited_keys" by (rule imageI)
  then show False by (simp add: inherited_keys_def)
qed

lemma spec_key_default [simp]: "spec_key obj None = str_of (name obj) @ '' Plugin Tests''"
  "spec_key obj (Some \<lparr>specName = None, info_stackTrace = st\<rparr>) = str_of (name obj) @ '' Plugin Tests''"
  by (simp_all add: spec_key_def info_of_def empty_info_def)

text \<open>Where \<^verbatim>\<open>addAssertion\<close> files the record: under a name that is not inherited, or under
  which the store holds an array.\<close>

lemma addSuccess_open:
  "\<not> resultsReported s \<Longrightarrow>
   spec_key obj i \<notin> set inherited_keys \<or> map_of (assertions s) (spec_key obj i) \<noteq> None \<Longrightarrow>
   addSuccess s obj i =
     (s\<lparr>assertions := push_assertion (spec_key obj i)
            \<lparr>passed = True, errorMsg = None, stackTrace = None\<rparr> (assertions s)\<rparr>, Inr ())"
  by (auto simp: addSuccess_def addAssertion_def Let_def spec_key_eq)

lemma addFailure_open:
  "\<not> resultsReported s \<Longrightarrow>
   spec_key obj i \<notin> set inherited_keys \<or> map_of (assertions s) (spec_key obj i) \<noteq> None \<Longrightarrow>
   addFailure s obj m i =
     (s\<lparr>assertions := push_assertion (spec_key obj i)
            \<lparr>passed = False, errorMsg = Some m,
             stackTrace = (if truthy (info_stackTrace (info_of i))
                           then Some (info_stackTrace (info_of i)) else None)\<rparr> (assertions s)\<rparr>, Inr ())"
  by (auto simp: addFailure_def addAssertion_def Let_def spec_key_eq)

text \<open>Under an inherited name with no array, nothing is filed and a \<^verbatim>\<open>TypeError\<close> is raised.\<close>

lemma addAssertion_inherited:
  "\<not> resultsReported s \<Longrightarrow> spec_key obj i \<in> set inherited_keys \<Longrightarrow>
   map_of (assertions s) (spec_key obj i) = None \<Longrightarrow>
   addAssertion s obj i p m =
     (if spec_key obj i = ''__proto__'' then s else s\<lparr>holds_inherited := True\<rparr>, Inl TypeError)"
  by (simp add: addAssertion_def Let_def spec_key_eq)

lemma addAssertion_Inr:
  "addAssertion s obj i p m = (s', Inr ()) \<Longrightarrow>
   \<not> resultsReported s \<and>
   (spec_key obj i \<notin> set inherited_keys \<or> map_of (assertions s) (spec_key obj i) \<noteq> None)"
  by (auto simp: addAssertion_def Let_def spec_key_eq split: if_splits)

lemma addAssertion_Inl:
  "snd (addAssertion s obj i p m) = Inl x \<Longrightarrow>
   assertions (fst (addAssertion s obj i p m)) = assertions s \<and>
   resultsReported (fst (addAssertion s obj i p m)) = resultsReported s \<and>
   pluginObjs (fst (addAssertion s obj i p m)) = pluginObjs s \<and>
   logged (fst (addAssertion s obj i p m)) = logged s"
  by (auto simp: addAssertion_def Let_def split: if_splits)

lemma set_push_assertion:
  "set (all_assertions (push_assertion k a store)) = insert a (set (all_assertions store))"
proof (cases "map_of store k")
  case None
  then show ?thesis by (simp add: push_assertion_def all_assertions_def)
next
  case (Some old)
  then have "(k, old) \<in> set store" by (rule map_of_SomeD)
  then show ?thesis using Some
    by (auto simp: push_assertion_def all_assertions_def split: if_splits) 
qed

subsection \<open>What \<^verbatim>\<open>logError\<close> does\<close>

lemma get_prop_nullish: "nullish e \<Longrightarrow> get_prop e k = Inl TypeError"
  by (auto simp: nullish_def)

lemma get_prop_prop_of: "\<not> nullish e \<Longrightarrow> get_prop e k = Inr (prop_of e k)"
  by (cases e) (simp_all add: nullish_def prop_of_def)

lemma logError_nullish: "nullish e \<Longrightarrow> logError s p f fail e = (s, Inl TypeError)"
  by (simp add: logError_def get_prop_nullish)

lemma logError_open:
  assumes "\<not> resultsReported s" "\<not> nullish e"
  shows "logError s p f fail e =
     (s\<lparr>assertions := push_assertion (str_of (name p) @ '' Plugin Tests'')
            \<lparr>passed = False,
             errorMsg = Some (JStr (''Failure during '' @ f @ '': '' @ to_string (prop_of e ''message''))),
             stackTrace = (if truthy (prop_of e ''stack'') then Some (prop_of e ''stack'') else None)\<rparr>
            (assertions s)\<rparr>, Inr fail)"
  using assms
  by (simp add: logError_def get_prop_prop_of addFailure_open js_or_def info_of_def)

lemma print_runtime:
  "printPluginResults lg
     [\<lparr>description = d,
       spec_assertions = [\<lparr>passed = False, errorMsg = Some m, stackTrace = Some st\<rparr>]\<rparr>] =
   (let lg2 = lg @ [LogInfo [red, [CHR 0x09], ''Fail: '', d, normalColor],
                    LogError ([CHR 0x09, CHR 0x09] @ to_string m)]
    in if truthy st then
         (case st of JStr t \<Rightarrow> (lg2 @ [LogError ([CHR 0x09, CHR 0x09] @ replace_newlines t)], None)
          | _ \<Rightarrow> (lg2, Some TypeError))
       else (lg2, None))"
  by (cases st) (simp_all add: Let_def)

lemma logError_reported:
  assumes "resultsReported s" "\<not> nullish e"
  shows "logError s p f fail e =
     (case printPluginResults (logged s)
             [\<lparr>description = str_of (name p) @ '' Runtime'',
               spec_assertions =
                 [\<lparr>passed = False,
                   errorMsg = Some (JStr (''Failure during '' @ f @ '': '' @
                                          to_string (js_or (prop_of e ''message'') e))),
                   stackTrace = Some (prop_of e ''stack'')\<rparr>]\<rparr>] of
        (lg, Some x) \<Rightarrow> (s\<lparr>logged := lg\<rparr>, Inl x)
      | (lg, None) \<Rightarrow> (s\<lparr>logged := lg\<rparr>, Inr fail))"
  using assms by (simp add: logError_def get_prop_prop_of)

lemma logError_snd:
  "snd (logError s p f fail e) = (if raises (resultsReported s) e then Inl TypeError else Inr fail)"
proof (cases "nullish e")
  case True
  then show ?thesis by (simp add: logError_nullish raises_def)
next
  case False
  show ?thesis
  proof (cases "resultsReported s")
    case True
    show ?thesis
      unfolding logError_reported [OF True False] print_runtime
      using True False
      by (cases "prop_of e ''stack''") (simp_all add: raises_def Let_def)
  next
    case F: False
    then show ?thesis using False by (simp add: logError_open raises_def)
  qed
qed

lemma logError_frame:
  "resultsReported (fst (logError s p f fail e)) = resultsReported s \<and>
   pluginObjs (fst (logError s p f fail e)) = pluginObjs s \<and>
   holds_inherited (fst (logError s p f fail e)) = holds_inherited s"
proof (cases "nullish e")
  case True
  then show ?thesis by (simp add: logError_nullish)
next
  case False
  show ?thesis
  proof (cases "resultsReported s")
    case True
    show ?thesis
      unfolding logError_reported [OF True False] print_runtime
      by (cases "prop_of e ''stack''") (simp_all add: Let_def)
  next
    case F: False
    then show ?thesis using False by (simp add: logError_open)
  qed
qed

lemma logError_reported_store:
  "resultsReported s \<Longrightarrow> assertions (fst (logError s p f fail e)) = assertions s"
proof (cases "nullish e")
  case True
  then show ?thesis by (simp add: logError_nullish)
next
  case False
  assume r: "resultsReported s"
  show ?thesis
    unfolding logError_reported [OF r False] print_runtime
    by (cases "prop_of e ''stack''") (simp_all add: Let_def)
qed

subsection \<open>The results stay reported\<close>

lemma safeCallPluginFun_cases:
  "safeCallPluginFun s p f args pt fail =
     (case invoke p f args of
        Returns v \<Rightarrow> (s, Inr (Fulfilled v))
      | Awaitable st \<Rightarrow> (s, Inr (Pending st))
      | Throws e \<Rightarrow>
          (fst (logError s p f fail e),
           if raises (resultsReported s) e then Inl TypeError else Inr (Fulfilled fail)))"
proof (cases "invoke p f args")
  case (Throws e)
  obtain s' r where l: "logError s p f fail e = (s', r)" by (cases "logError s p f fail e")
  with logError_snd [of s p f fail e] show ?thesis
    using Throws by (simp add: safeCallPluginFun_def)
qed (simp_all add: safeCallPluginFun_def)

lemma hookSettled_eq:
  "hookSettled s p f fail st =
     ((case st of Resolves v \<Rightarrow> s | Rejects e \<Rightarrow> fst (logError s p f fail e)),
      settled_promise (resultsReported s) fail (Pending st))"
proof (cases st)
  case (Resolves v)
  then show ?thesis by (simp add: hookSettled_def)
next
  case (Rejects e)
  obtain s' r where l: "logError s p f fail e = (s', r)" by (cases "logError s p f fail e")
  with logError_snd [of s p f fail e] show ?thesis
    using Rejects by (simp add: hookSettled_def)
qed

text \<open>A property of the state that logError keeps is kept by every step of a dispatch.\<close>

lemma safeCallPluginFun_keeps:
  assumes "\<And>s p e. P s \<Longrightarrow> P (fst (logError s p f fail e))" and "P s"
  shows "P (fst (safeCallPluginFun s p f args pt fail))"
  using assms by (cases "invoke p f args") (simp_all add: safeCallPluginFun_cases)

lemma hookSettled_keeps:
  assumes "\<And>s p e. P s \<Longrightarrow> P (fst (logError s p f fail e))" and "P s"
  shows "P (fst (hookSettled s p f fail st))"
  using assms by (cases st) (simp_all add: hookSettled_eq)

lemma forEach_pluginObj_keeps:
  assumes step: "\<And>s p e. P s \<Longrightarrow> P (fst (logError s p f fail e))"
  shows "P s \<Longrightarrow> P (fst (forEach_pluginObj s f args pt fail ps acc))"
proof (induction ps arbitrary: s acc)
  case Nil
  then show ?case by simp
next
  case (Cons p ps)
  show ?case
  proof (cases "hooks p f \<noteq> None")
    case False
    then show ?thesis using Cons by simp
  next
    case True
    obtain s' r where c: "safeCallPluginFun s p f args pt fail = (s', r)"
      by (cases "safeCallPluginFun s p f args pt fail")
    have P': "P s'"
      using safeCallPluginFun_keeps [of P f fail s p args pt, OF step Cons.prems] c by simp
    show ?thesis
    proof (cases r)
      case (Inl x)
      then show ?thesis using True c P' by simp
    next
      case (Inr a)
      then show ?thesis using True c Cons.IH [OF P'] by simp
    qed
  qed
qed

lemma pluginFunFactory_keeps:
  assumes "\<And>s p e. P s \<Longrightarrow> P (fst (logError s p f fail e))" and "P s"
  shows "P (fst (pluginFunFactory f pt fail s args))"
  unfolding pluginFunFactory_def using assms by (rule forEach_pluginObj_keeps)

lemma getResults_frame:
  "assertions (fst (getResults s)) = assertions s \<and>
   pluginObjs (fst (getResults s)) = pluginObjs s \<and>
   holds_inherited (fst (getResults s)) = holds_inherited s \<and>
   (resultsReported s \<longrightarrow> resultsReported (fst (getResults s)))"
  by (simp add: getResults_def Let_def split: prod.splits option.splits)

lemma addAssertion_reported_fst: "resultsReported s \<Longrightarrow> fst (addAssertion s obj i p m) = s"
  by (simp add: addAssertion_reported)

lemma exec_keeps_reported: "resultsReported s \<Longrightarrow> resultsReported (exec s x)"
proof (cases x)
  case (OpAddFailure obj m i)
  assume "resultsReported s"
  then show ?thesis using OpAddFailure by (simp add: addFailure_def addAssertion_reported)
next
  case (OpAddSuccess obj i)
  assume "resultsReported s"
  then show ?thesis using OpAddSuccess by (simp add: addSuccess_def addAssertion_reported)
next
  case (OpAddWarning obj m i)
  assume "resultsReported s"
  then show ?thesis using OpAddWarning by (simp add: addWarning_def Let_def)
next
  case OpGetResults
  assume "resultsReported s"
  then show ?thesis using OpGetResults getResults_frame by simp
next
  case (OpDispatch f pt fail args)
  assume r: "resultsReported s"
  show ?thesis unfolding OpDispatch exec.simps
    by (rule pluginFunFactory_keeps [of resultsReported, OF _ r]) (simp add: logError_frame)
next
  case (OpSafeCall obj f args pt fail)
  assume r: "resultsReported s"
  show ?thesis unfolding OpSafeCall exec.simps
    by (rule safeCallPluginFun_keeps [of resultsReported, OF _ r]) (simp add: logError_frame)
next
  case (OpSettled obj f fail st)
  assume r: "resultsReported s"
  show ?thesis unfolding OpSettled exec.simps
    by (rule hookSettled_keeps [of resultsReported, OF _ r]) (simp add: logError_frame)
qed

lemma run_keeps_reported: "resultsReported s \<Longrightarrow> resultsReported (run s ops)"
  unfolding run_def by (induction ops arbitrary: s) (simp_all add: exec_keeps_reported)

lemma addWarning_logs:
  "\<exists>w. addWarning s obj m i = s\<lparr>logged := logged s @ [LogWarn w]\<rparr>"
  unfolding addWarning_def Let_def by blast

text \<open>
  Claim C2, as amended. Once a call of \<^verbatim>\<open>getResults\<close> has returned, whatever happens to the
  \<^verbatim>\<open>Plugins\<close> object afterwards, a call of \<^verbatim>\<open>addFailure\<close> or \<^verbatim>\<open>addSuccess\<close> throws the error
  "Cannot add new tests results, since they were already reported." and leaves the state
  as it is, and a call of \<^verbatim>\<open>addWarning\<close> does not throw: it adds one warning to the log and
  changes nothing else. (\<^verbatim>\<open>getResults\<close> sets \<^verbatim>\<open>resultsReported\<close> as its last step: a call
  that raises sets nothing, see \<open>getResults_returns\<close> and the counterexample below.)
\<close>

theorem locked_after_getResults:
  assumes "getResults s = (s1, Inr r)"
  shows "addFailure (run s1 ops) obj m i =
           (run s1 ops, Inl (Error ''Cannot add new tests results, since they were already reported.'')) \<and>
         addSuccess (run s1 ops) obj i =
           (run s1 ops, Inl (Error ''Cannot add new tests results, since they were already reported.'')) \<and>
         (\<exists>w. addWarning (run s1 ops) obj m i = (run s1 ops)\<lparr>logged := logged (run s1 ops) @ [LogWarn w]\<rparr>)"
proof -
  have "resultsReported s1"
    using assms by (auto simp: getResults_def Let_def split: prod.splits option.splits if_splits)
  then have "resultsReported (run s1 ops)" by (rule run_keeps_reported)
  then show ?thesis
    using addWarning_logs [of "run s1 ops" obj m i]
    by (simp add: addFailure_def addSuccess_def addAssertion_reported)
qed

subsection \<open>Names, counts and warnings\<close>

text \<open>
  Claim C7. When the plugin object has no name of its own (\<^verbatim>\<open>undefined\<close> or the empty
  string), the name \<^verbatim>\<open>annotatePluginObj\<close> assigns is the first non-empty value among the
  configured name, the configured path, the configured package and \<^verbatim>\<open>'Plugin #' + i\<close>, in
  that order.
\<close>

theorem annotate_name:
  "name obj = None \<or> name obj = Some [] \<Longrightarrow>
   name (annotatePluginObj obj conf i) =
     first_nonempty [conf_name conf, conf_path conf, conf_package conf,
                     Some (''Plugin #'' @ string_of_nat i)]"
  by (cases "conf_name conf"; cases "conf_path conf"; cases "conf_package conf")
     (auto simp: annotatePluginObj_def or_str_def truthy_str_def)

lemma collect_results_eq:
  "collect_results r store =
     \<lparr>failedCount = failedCount r + failed_total store,
      specResults = specResults r @
        map (\<lambda>(spec, as). \<lparr>description = spec, spec_assertions = as\<rparr>) store\<rparr>"
  by (induction r store rule: collect_results.induct)
     (simp_all add: failed_total_def all_assertions_def)

lemma getResults_unfold:
  "\<not> holds_inherited s \<Longrightarrow>
   printPluginResults (logged s)
     (specResults (collect_results \<lparr>failedCount = 0, specResults = []\<rparr> (assertions s))) = (l, x) \<Longrightarrow>
   getResults s =
     (case x of
        Some e \<Rightarrow> (s\<lparr>logged := l\<rparr>, Inl e)
      | None \<Rightarrow> (s\<lparr>logged := l, resultsReported := True\<rparr>,
                  Inr (collect_results \<lparr>failedCount = 0, specResults = []\<rparr> (assertions s))))"
  by (cases x) (simp_all add: getResults_def Let_def)

lemma getResults_inherited: "holds_inherited s \<Longrightarrow> getResults s = (s, Inl TypeError)"
  by (simp add: getResults_def)

lemma getResults_Inr:
  assumes "getResults s = (s', Inr r)"
  shows "r = collect_results \<lparr>failedCount = 0, specResults = []\<rparr> (assertions s)"
    and "assertions s' = assertions s"
    and "resultsReported s'"
    and "snd (printPluginResults lg (specResults r)) = None"
    and "\<not> holds_inherited s'"
proof -
  let ?res = "collect_results \<lparr>failedCount = 0, specResults = []\<rparr> (assertions s)"
  have nh: "\<not> holds_inherited s"
    using assms getResults_inherited [of s] by auto
  obtain l x where p: "printPluginResults (logged s) (specResults ?res) = (l, x)"
    by (cases "printPluginResults (logged s) (specResults ?res)")
  note u = getResults_unfold [OF nh p]
  have x: "x = None" using assms u by (cases x) simp_all
  then have r: "r = ?res" and s': "s' = s\<lparr>logged := l, resultsReported := True\<rparr>"
    using assms u by simp_all
  show "r = ?res" by (rule r)
  show "assertions s' = assertions s" using s' by simp
  show "resultsReported s'" using s' by simp
  show "\<not> holds_inherited s'" using s' nh by simp
  show "snd (printPluginResults lg (specResults r)) = None"
    using printPluginResults_snd [of lg "specResults ?res" "logged s"] p x r by simp
qed

text \<open>
  Claim C6. The \<^verbatim>\<open>failedCount\<close> of the object \<^verbatim>\<open>getResults\<close> returns is the number of
  assertion records of the store, over all spec names, whose \<^verbatim>\<open>passed\<close> is false.
  \<^verbatim>\<open>getResults\<close> leaves the store as it is, so summing again over the store gives the same
  number, and a second call returns the same object.
\<close>

theorem failedCount_total:
  assumes "getResults s = (s', Inr r)"
  shows "failedCount r = failed_total (assertions s) \<and>
         failedCount (collect_results \<lparr>failedCount = 0, specResults = []\<rparr> (assertions s')) = failedCount r \<and>
         snd (getResults s') = Inr r"
proof -
  note g = getResults_Inr [OF assms]
  have 1: "failedCount r = failed_total (assertions s)"
    unfolding g(1) collect_results_eq by simp
  have 2: "failedCount (collect_results \<lparr>failedCount = 0, specResults = []\<rparr> (assertions s')) = failedCount r"
    unfolding g(2) g(1) ..
  obtain l x where p: "printPluginResults (logged s') (specResults r) = (l, x)"
    by (cases "printPluginResults (logged s') (specResults r)")
  with g(4) [of "logged s'"] have "x = None" by simp
  with p have 3: "snd (getResults s') = Inr r"
    using getResults_unfold [OF g(5), of l x] by (simp add: g(2) g(1) [symmetric])
  from 1 2 3 show ?thesis by blast
qed

text \<open>
  Claim C9. In every state, \<^verbatim>\<open>addWarning\<close> changes neither the assertion store (its arrays
  and what else it holds) nor \<^verbatim>\<open>resultsReported\<close> nor the plugin list: it adds one warning
  to the log. So what \<^verbatim>\<open>getResults\<close> returns (its \<^verbatim>\<open>specResults\<close> and \<^verbatim>\<open>failedCount\<close>, or its
  exception) is the same with and without the warning.
\<close>

theorem addWarning_frame:
  "assertions (addWarning s obj m i) = assertions s \<and>
   resultsReported (addWarning s obj m i) = resultsReported s \<and>
   pluginObjs (addWarning s obj m i) = pluginObjs s \<and>
   holds_inherited (addWarning s obj m i) = holds_inherited s \<and>
   (\<exists>w. logged (addWarning s obj m i) = logged s @ [LogWarn w]) \<and>
   snd (getResults (addWarning s obj m i)) = snd (getResults s)"
proof -
  let ?s = "addWarning s obj m i"
  have a: "assertions ?s = assertions s" by (simp add: addWarning_def Let_def)
  have b: "resultsReported ?s = resultsReported s" by (simp add: addWarning_def Let_def)
  have c: "pluginObjs ?s = pluginObjs s" by (simp add: addWarning_def Let_def)
  have h: "holds_inherited ?s = holds_inherited s" by (simp add: addWarning_def Let_def)
  have d: "\<exists>w. logged ?s = logged s @ [LogWarn w]" by (simp add: addWarning_def Let_def)
  have e: "snd (getResults ?s) = snd (getResults s)"
  proof (cases "holds_inherited s")
    case True
    then show ?thesis using h by (simp add: getResults_inherited)
  next
    case False
    then have nh: "\<not> holds_inherited ?s" using h by simp
    let ?rs = "specResults (collect_results \<lparr>failedCount = 0, specResults = []\<rparr> (assertions s))"
    obtain l x where p: "printPluginResults (logged s) ?rs = (l, x)"
      by (cases "printPluginResults (logged s) ?rs")
    obtain l' x' where p': "printPluginResults (logged ?s) ?rs = (l', x')"
      by (cases "printPluginResults (logged ?s) ?rs")
    have xx: "x' = x" using printPluginResults_snd [of "logged ?s" ?rs "logged s"] p p' by simp
    show ?thesis
      using getResults_unfold [OF False p] getResults_unfold [OF nh p' [folded a]] xx
      by (cases x) (simp_all add: a)
  qed
  from a b c h d e show ?thesis by blast
qed

subsection \<open>The shape of the assertion records\<close>

lemma shaped_push:
  "shaped s \<Longrightarrow> well_shaped a \<Longrightarrow> shaped (s\<lparr>assertions := push_assertion k a (assertions s)\<rparr>)"
  by (simp add: shaped_def set_push_assertion)

lemma well_shaped_success: "well_shaped \<lparr>passed = True, errorMsg = None, stackTrace = None\<rparr>"
  by (simp add: well_shaped_def)

lemma well_shaped_failure:
  "well_shaped \<lparr>passed = False, errorMsg = Some m,
                stackTrace = (if truthy st then Some st else None)\<rparr>"
  by (simp add: well_shaped_def)

lemma addAssertion_shaped:
  assumes "shaped s"
    and "well_shaped (if \<not> p then (if truthy (info_stackTrace (info_of i))
                                   then \<lparr>passed = p, errorMsg = Some m,
                                         stackTrace = Some (info_stackTrace (info_of i))\<rparr>
                                   else \<lparr>passed = p, errorMsg = Some m, stackTrace = None\<rparr>)
                      else \<lparr>passed = p, errorMsg = None, stackTrace = None\<rparr>)"
  shows "shaped (fst (addAssertion s obj i p m))"
proof (cases "snd (addAssertion s obj i p m)")
  case (Inl x)
  then show ?thesis using addAssertion_Inl [OF Inl] assms(1) by (simp add: shaped_def)
next
  case (Inr u)
  then have "\<not> resultsReported s"
    by (auto simp: addAssertion_def)
  then show ?thesis using Inr assms
    by (auto simp: addAssertion_def Let_def shaped_def set_push_assertion split: if_splits)
qed

lemma addSuccess_shaped: "shaped s \<Longrightarrow> shaped (fst (addSuccess s obj i))"
  unfolding addSuccess_def by (rule addAssertion_shaped) (simp_all add: well_shaped_def)

lemma addFailure_shaped: "shaped s \<Longrightarrow> shaped (fst (addFailure s obj m i))"
  unfolding addFailure_def by (rule addAssertion_shaped) (simp_all add: well_shaped_def)

lemma logError_shaped: "shaped s \<Longrightarrow> shaped (fst (logError s p f fail e))"
proof -
  assume sh: "shaped s"
  show ?thesis
  proof (cases "nullish e")
    case True
    then show ?thesis using sh by (simp add: logError_nullish)
  next
    case False
    show ?thesis
    proof (cases "resultsReported s")
      case True
      then show ?thesis using sh logError_reported_store [of s p f fail e]
        by (simp add: shaped_def)
    next
      case F: False
      show ?thesis
        unfolding logError_open [OF F False] fst_conv
        by (rule shaped_push [OF sh well_shaped_failure])
    qed
  qed
qed

lemma exec_shaped: "shaped s \<Longrightarrow> shaped (exec s x)"
proof (cases x)
  case (OpAddFailure obj m i)
  assume "shaped s"
  then show ?thesis using OpAddFailure by (simp add: addFailure_shaped)
next
  case (OpAddSuccess obj i)
  assume "shaped s"
  then show ?thesis using OpAddSuccess by (simp add: addSuccess_shaped)
next
  case (OpAddWarning obj m i)
  assume "shaped s"
  then show ?thesis using OpAddWarning by (simp add: addWarning_def Let_def shaped_def)
next
  case OpGetResults
  assume "shaped s"
  then show ?thesis using OpGetResults getResults_frame [of s] by (simp add: shaped_def)
next
  case (OpDispatch f pt fail args)
  assume r: "shaped s"
  show ?thesis unfolding OpDispatch exec.simps
    by (rule pluginFunFactory_keeps [of shaped, OF _ r]) (rule logError_shaped)
next
  case (OpSafeCall obj f args pt fail)
  assume r: "shaped s"
  show ?thesis unfolding OpSafeCall exec.simps
    by (rule safeCallPluginFun_keeps [of shaped, OF _ r]) (rule logError_shaped)
next
  case (OpSettled obj f fail st)
  assume r: "shaped s"
  show ?thesis unfolding OpSettled exec.simps
    by (rule hookSettled_keeps [of shaped, OF _ r]) (rule logError_shaped)
qed

lemma run_shaped: "shaped s \<Longrightarrow> shaped (run s ops)"
  unfolding run_def by (induction ops arbitrary: s) (simp_all add: exec_shaped)

lemma load_plugins_assertions: "assertions (load_plugins s cs i) = assertions s"
  by (induction s cs i rule: load_plugins.induct) (simp_all add: Let_def)

lemma new_Plugins_shaped: "shaped (new_Plugins cs)"
  by (simp add: shaped_def new_Plugins_def load_plugins_assertions all_assertions_def)

text \<open>
  Claim C10. The record \<^verbatim>\<open>addSuccess\<close> adds is exactly \<^verbatim>\<open>{passed: true}\<close>, with neither
  \<^verbatim>\<open>errorMsg\<close> nor \<^verbatim>\<open>stackTrace\<close>. The record \<^verbatim>\<open>addFailure\<close> adds has \<^verbatim>\<open>passed\<close> false,
  carries the message as \<^verbatim>\<open>errorMsg\<close>, and carries a \<^verbatim>\<open>stackTrace\<close> exactly when the caller
  gave a truthy \<^verbatim>\<open>info.stackTrace\<close>, which it then is. And every record of the store, after
  any run from a freshly constructed \<^verbatim>\<open>Plugins\<close> object, has one of these two shapes.
\<close>

theorem assertion_shapes:
  "(addSuccess s obj i = (s', Inr ()) \<longrightarrow>
      assertions s' = push_assertion (spec_key obj i)
         \<lparr>passed = True, errorMsg = None, stackTrace = None\<rparr> (assertions s)) \<and>
   (addFailure s obj m i = (s'', Inr ()) \<longrightarrow>
      assertions s'' = push_assertion (spec_key obj i)
         \<lparr>passed = False, errorMsg = Some m,
          stackTrace = (if truthy (info_stackTrace (info_of i))
                        then Some (info_stackTrace (info_of i)) else None)\<rparr> (assertions s)) \<and>
   (\<forall>a \<in> set (all_assertions (assertions (run (new_Plugins pluginConfs) ops))). well_shaped a)"
proof (intro conjI impI)
  assume a: "addSuccess s obj i = (s', Inr ())"
  note k = addAssertion_Inr [OF a [unfolded addSuccess_def]]
  from addSuccess_open [OF conjunct1 [OF k] conjunct2 [OF k]] a
  show "assertions s' = push_assertion (spec_key obj i)
         \<lparr>passed = True, errorMsg = None, stackTrace = None\<rparr> (assertions s)"
    by auto
next
  assume a: "addFailure s obj m i = (s'', Inr ())"
  note k = addAssertion_Inr [OF a [unfolded addFailure_def]]
  from addFailure_open [OF conjunct1 [OF k] conjunct2 [OF k], of m] a
  show "assertions s'' = push_assertion (spec_key obj i)
         \<lparr>passed = False, errorMsg = Some m,
          stackTrace = (if truthy (info_stackTrace (info_of i))
                        then Some (info_stackTrace (info_of i)) else None)\<rparr> (assertions s)"
    by auto
next
  show "\<forall>a \<in> set (all_assertions (assertions (run (new_Plugins pluginConfs) ops))). well_shaped a"
    using run_shaped [OF new_Plugins_shaped, of pluginConfs ops] by (simp add: shaped_def)
qed

subsection \<open>The entries of a dispatch and their completion\<close>

lemma safeCallPluginFun_Inr:
  "safeCallPluginFun s p f args pt fail = (s', Inr a) \<Longrightarrow> a = initial_promise f args fail p"
  by (cases "invoke p f args")
     (auto simp: safeCallPluginFun_cases initial_promise_def split: if_splits)

lemma forEach_pluginObj_Inr:
  "forEach_pluginObj s f args pt fail ps acc = (s', Inr cs) \<Longrightarrow>
   cs = acc @ map (\<lambda>p. \<lparr>callee = p, promise = initial_promise f args fail p\<rparr>)
                  (filter (has_hook f) ps)"
proof (induction ps arbitrary: s acc)
  case Nil
  then show ?case by simp
next
  case (Cons p ps)
  show ?case
  proof (cases "hooks p f \<noteq> None")
    case False
    then show ?thesis using Cons by (simp add: has_hook_def)
  next
    case True
    obtain s1 r where c: "safeCallPluginFun s p f args pt fail = (s1, r)"
      by (cases "safeCallPluginFun s p f args pt fail")
    show ?thesis
    proof (cases r)
      case (Inl x)
      then show ?thesis using True c Cons.prems by simp
    next
      case (Inr a)
      then have a: "a = initial_promise f args fail p"
        using c safeCallPluginFun_Inr by blast
      have "forEach_pluginObj s1 f args pt fail ps (acc @ [\<lparr>callee = p, promise = a\<rparr>]) = (s', Inr cs)"
        using True c Inr Cons.prems by simp
      from Cons.IH [OF this] show ?thesis using True a by (simp add: has_hook_def)
    qed
  qed
qed

lemma forEach_pluginObj_filter:
  "forEach_pluginObj s f args pt fail ps acc =
   forEach_pluginObj s f args pt fail (filter (has_hook f) ps) acc"
proof (induction ps arbitrary: s acc)
  case Nil
  then show ?case by simp
next
  case (Cons p ps)
  show ?case
  proof (cases "hooks p f \<noteq> None")
    case False
    then show ?thesis using Cons by (simp add: has_hook_def)
  next
    case True
    then show ?thesis using Cons.IH
      by (simp add: has_hook_def split: prod.splits sum.splits)
  qed
qed

lemma settled_promise_idem:
  "settled_promise r fail (settled_promise r fail a) = settled_promise r fail a"
  by (induction r fail a rule: settled_promise.induct) simp_all

lemma map_callee_update: "map callee (cs[i := (cs ! i)\<lparr>promise := a\<rparr>]) = map callee cs"
proof (cases "i < length cs")
  case True
  then show ?thesis by (intro nth_equalityI) (simp_all add: nth_list_update)
next
  case False
  then show ?thesis by (simp add: list_update_beyond)
qed

lemma update_same:
  "i < length cs \<Longrightarrow> promise (cs ! i) = a \<Longrightarrow> (map promise cs)[i := a] = map promise cs"
  by (metis list_update_id nth_map)

lemma map_promise_update:
  "map promise (cs[i := (cs ! i)\<lparr>promise := a\<rparr>]) = (map promise cs)[i := a]"
  by (simp add: map_update)

lemma settle_call_eq:
  assumes "settle_call f fail (s, cs) i = (s', cs')"
  shows "resultsReported s' = resultsReported s"
    and "map callee cs' = map callee cs"
    and "map promise cs' =
           (map promise cs)[i := settled_promise (resultsReported s) fail (map promise cs ! i)]"
proof -
  have "resultsReported s' = resultsReported s \<and> map callee cs' = map callee cs \<and>
        map promise cs' =
           (map promise cs)[i := settled_promise (resultsReported s) fail (map promise cs ! i)]"
  proof (cases "i < length cs")
    case False
    then show ?thesis using assms by (auto simp: settle_call_def list_update_beyond)
  next
    case True
    show ?thesis
    proof (cases "promise (cs ! i)")
      case (Pending st)
      have fr: "resultsReported (fst (hookSettled s (callee (cs ! i)) f fail st)) = resultsReported s"
        by (rule hookSettled_keeps [of "\<lambda>t. resultsReported t = resultsReported s"])
           (simp_all add: logError_frame)
      obtain s2 a where h: "hookSettled s (callee (cs ! i)) f fail st = (s2, a)"
        by (cases "hookSettled s (callee (cs ! i)) f fail st")
      then have a: "a = settled_promise (resultsReported s) fail (Pending st)"
        by (simp add: hookSettled_eq)
      have "s' = s2" and "cs' = cs[i := (cs ! i)\<lparr>promise := a\<rparr>]"
        using assms True Pending h by (simp_all add: settle_call_def)
      then show ?thesis using fr h a True Pending
        by (simp add: map_callee_update map_promise_update)
    next
      case (Fulfilled v)
      then show ?thesis using assms True
        by (auto simp: settle_call_def update_same)
    next
      case (Rejected e)
      then show ?thesis using assms True
        by (auto simp: settle_call_def update_same)
    next
      case Stalled
      then show ?thesis using assms True
        by (auto simp: settle_call_def update_same)
    qed
  qed
  then show "resultsReported s' = resultsReported s"
    and "map callee cs' = map callee cs"
    and "map promise cs' =
           (map promise cs)[i := settled_promise (resultsReported s) fail (map promise cs ! i)]"
    by blast+
qed

lemma run_schedule_eq:
  assumes "run_schedule f fail s cs sched = (s', cs')"
  shows "resultsReported s' = resultsReported s \<and> map callee cs' = map callee cs \<and>
         map promise cs' =
           map (\<lambda>(i, a). if i \<in> set sched then settled_promise (resultsReported s) fail a else a)
               (enumerate 0 (map promise cs))"
  using assms
proof (induction sched arbitrary: s' cs' rule: rev_induct)
  case Nil
  then show ?case
    by (auto simp: run_schedule_def intro!: nth_equalityI simp: nth_enumerate_eq)
next
  case (snoc j sched)
  obtain s1 cs1 where r: "run_schedule f fail s cs sched = (s1, cs1)"
    by (cases "run_schedule f fail s cs sched")
  note ih = snoc.IH [OF r]
  have st: "settle_call f fail (s1, cs1) j = (s', cs')"
    using snoc.prems r by (simp add: run_schedule_def)
  note sc = settle_call_eq [OF st]
  have len: "length cs1 = length cs" using ih by (metis length_map)
  have "map promise cs' =
           map (\<lambda>(i, a). if i \<in> set (sched @ [j]) then settled_promise (resultsReported s) fail a else a)
               (enumerate 0 (map promise cs))"
  proof (rule nth_equalityI)
    show "length (map promise cs') = length (map (\<lambda>(i, a). if i \<in> set (sched @ [j]) then settled_promise (resultsReported s) fail a else a)
               (enumerate 0 (map promise cs)))"
      using sc(3) len by (metis length_map length_list_update length_enumerate)
  next
    fix i assume "i < length (map promise cs')"
    then have i: "i < length cs" using sc(3) len by (metis length_map length_list_update)
    let ?R = "resultsReported s"
    have l1: "i < length (map promise cs1)" using i len by simp
    have p1: "\<And>k. k < length cs \<Longrightarrow> map promise cs1 ! k =
                (if k \<in> set sched then settled_promise ?R fail (promise (cs ! k))
                 else promise (cs ! k))"
      using ih by (simp add: nth_enumerate_eq)
    have rr: "resultsReported s1 = ?R" using ih by simp
    have lhs: "map promise cs' ! i =
                 (if i = j then settled_promise ?R fail (map promise cs1 ! i)
                  else map promise cs1 ! i)"
      unfolding sc(3) rr using l1 by (simp add: nth_list_update)
    have rhs: "map (\<lambda>(i, a). if i \<in> set (sched @ [j]) then settled_promise ?R fail a else a)
               (enumerate 0 (map promise cs)) ! i =
               (if i \<in> set sched \<or> i = j then settled_promise ?R fail (promise (cs ! i))
                else promise (cs ! i))"
      using i by (simp add: nth_enumerate_eq)
    show "map promise cs' ! i =
          map (\<lambda>(i, a). if i \<in> set (sched @ [j]) then settled_promise ?R fail a else a)
               (enumerate 0 (map promise cs)) ! i"
      unfolding lhs rhs p1 [OF i] by (simp add: settled_promise_idem)
  qed
  then show ?case using ih sc by simp
qed

lemma promise_all_AllFulfilled:
  "promise_all ps = AllFulfilled vs \<Longrightarrow> ps = map Fulfilled vs"
proof (induction ps arbitrary: vs)
  case Nil
  then show ?case by auto
next
  case (Cons p ps)
  show ?case
  proof (cases p)
    case (Fulfilled v)
    then show ?thesis using Cons
      by (cases "promise_all ps") auto
  next
    case (Rejected e)
    then show ?thesis using Cons.prems by simp
  next
    case (Pending st)
    then show ?thesis using Cons.prems by (cases "promise_all ps") auto
  next
    case Stalled
    then show ?thesis using Cons.prems by (cases "promise_all ps") auto
  qed
qed

lemma promise_all_map_Fulfilled: "promise_all (map Fulfilled vs) = AllFulfilled vs"
  by (induction vs) simp_all

lemma promise_all_never_rejected:
  "\<forall>p \<in> set ps. \<forall>e. p \<noteq> Rejected e \<Longrightarrow> promise_all ps \<noteq> AllRejected e'"
proof (induction ps)
  case Nil
  then show ?case by simp
next
  case (Cons p ps)
  then show ?case by (cases p) (auto split: combined.splits)
qed

subsection \<open>The run with the spec S\<close>

lemma S_not_inherited [simp]: "''S'' \<notin> set inherited_keys"
  by (simp add: inherited_keys_def)

lemma scenario_S_state:
  "assertions scenario_S =
     [(''S'', [\<lparr>passed = True, errorMsg = None, stackTrace = None\<rparr>,
               \<lparr>passed = True, errorMsg = None, stackTrace = None\<rparr>,
               \<lparr>passed = False, errorMsg = Some (JStr ''x''), stackTrace = None\<rparr>])] \<and>
   \<not> resultsReported scenario_S \<and> \<not> holds_inherited scenario_S"
  by (simp add: scenario_S_def run_def new_Plugins_def Let_def addSuccess_def addFailure_def
      addAssertion_def in_spec_S_def info_of_def or_str_def truthy_str_def str_of_def
      push_assertion_def)

lemma getResults_scenario_S:
  "getResults scenario_S = (fst (getResults scenario_S), Inr results_S)"
proof -
  have "snd (getResults scenario_S) = Inr results_S"
    by (simp add: getResults_def scenario_S_state results_S_def Let_def)
  then show ?thesis by (metis prod.collapse)
qed

theorem annotate_name_witness:
  "(name (plugin_with ''setup'' (\<lambda>args. Returns JUndefined)) = None \<or>
    name (plugin_with ''setup'' (\<lambda>args. Returns JUndefined)) = Some []) \<and>
   name (annotatePluginObj (plugin_with ''setup'' (\<lambda>args. Returns JUndefined))
          \<lparr>conf_path = Some ''./p.js'', conf_package = Some ''pkg'', conf_name = Some []\<rparr> 3)
     = Some ''./p.js'' \<and>
   name (annotatePluginObj (plugin_with ''setup'' (\<lambda>args. Returns JUndefined))
          \<lparr>conf_path = None, conf_package = None, conf_name = None\<rparr> 12)
     = Some ''Plugin #12''"
proof -
  have h: "name (plugin_with ''setup'' (\<lambda>args. Returns JUndefined)) = None \<or>
           name (plugin_with ''setup'' (\<lambda>args. Returns JUndefined)) = Some []"
    by (simp add: plugin_with_def)
  show ?thesis
    using h annotate_name [OF h, of "\<lparr>conf_path = Some ''./p.js'', conf_package = Some ''pkg'', conf_name = Some []\<rparr>" 3]
      annotate_name [OF h, of "\<lparr>conf_path = None, conf_package = None, conf_name = None\<rparr>" 12]
    by (simp add: string_of_nat.simps)
qed

theorem locked_after_getResults_witness:
  "getResults scenario_S = (fst (getResults scenario_S), Inr results_S) \<and>
   addFailure (run (fst (getResults scenario_S)) [OpAddWarning plugin_B (JStr ''late'') None])
       plugin_C (JStr ''y'') in_spec_S =
     (run (fst (getResults scenario_S)) [OpAddWarning plugin_B (JStr ''late'') None],
      Inl (Error ''Cannot add new tests results, since they were already reported.'')) \<and>
   addSuccess (run (fst (getResults scenario_S)) [OpAddWarning plugin_B (JStr ''late'') None])
       plugin_B None =
     (run (fst (getResults scenario_S)) [OpAddWarning plugin_B (JStr ''late'') None],
      Inl (Error ''Cannot add new tests results, since they were already reported.''))"
  using getResults_scenario_S
    locked_after_getResults [OF getResults_scenario_S,
      of "[OpAddWarning plugin_B (JStr ''late'') None]" plugin_C "JStr ''y''" in_spec_S]
    locked_after_getResults [OF getResults_scenario_S,
      of "[OpAddWarning plugin_B (JStr ''late'') None]" plugin_B "JStr ''y''" None]
  by simp

theorem failedCount_total_witness:
  "getResults scenario_S = (fst (getResults scenario_S), Inr results_S) \<and>
   failedCount results_S = 1 \<and> failed_total (assertions scenario_S) = 1 \<and>
   snd (getResults (fst (getResults scenario_S))) = Inr results_S"
  using getResults_scenario_S failedCount_total [OF getResults_scenario_S]
  by (simp add: results_S_def)

theorem assertion_shapes_witness:
  "addSuccess (new_Plugins []) plugin_B in_spec_S =
     (fst (addSuccess (new_Plugins []) plugin_B in_spec_S), Inr ()) \<and>
   assertions (fst (addSuccess (new_Plugins []) plugin_B in_spec_S)) =
     [(''S'', [\<lparr>passed = True, errorMsg = None, stackTrace = None\<rparr>])] \<and>
   addFailure (new_Plugins []) plugin_B (JStr ''x'')
       (Some \<lparr>specName = None, info_stackTrace = JStr ''at f''\<rparr>) =
     (fst (addFailure (new_Plugins []) plugin_B (JStr ''x'')
       (Some \<lparr>specName = None, info_stackTrace = JStr ''at f''\<rparr>)), Inr ()) \<and>
   assertions (fst (addFailure (new_Plugins []) plugin_B (JStr ''x'')
       (Some \<lparr>specName = None, info_stackTrace = JStr ''at f''\<rparr>))) =
     [(''B Plugin Tests'',
       [\<lparr>passed = False, errorMsg = Some (JStr ''x''), stackTrace = Some (JStr ''at f'')\<rparr>])] \<and>
   list_all well_shaped (all_assertions (assertions scenario_S))"
proof -
  let ?i = "Some \<lparr>specName = None, info_stackTrace = JStr ''at f''\<rparr>"
  have nr: "\<not> resultsReported (new_Plugins [])" and st: "assertions (new_Plugins []) = []"
    by (simp_all add: new_Plugins_def)
  have k1: "spec_key plugin_B in_spec_S = ''S''"
    by (simp add: spec_key_def in_spec_S_def info_of_def)
  have nB: "str_of (name plugin_B) = ''B''"
    by (simp add: plugin_B_def annotatePluginObj_def plugin_with_def
        conf_named_def or_str_def truthy_str_def str_of_def)
  have k2: "spec_key plugin_B ?i = ''B Plugin Tests''"
    by (simp add: nB)
  have a: "addSuccess (new_Plugins []) plugin_B in_spec_S =
     (fst (addSuccess (new_Plugins []) plugin_B in_spec_S), Inr ())"
    by (simp add: addSuccess_open [OF nr] k1)
  have b: "addFailure (new_Plugins []) plugin_B (JStr ''x'') ?i =
     (fst (addFailure (new_Plugins []) plugin_B (JStr ''x'') ?i), Inr ())"
  proof -
    have "spec_key plugin_B ?i \<notin> set inherited_keys \<or>
          map_of (assertions (new_Plugins [])) (spec_key plugin_B ?i) \<noteq> None"
      by simp
    from addFailure_open [OF nr this, of "JStr ''x''"] show ?thesis by simp
  qed
  note t = assertion_shapes [of "new_Plugins []" plugin_B in_spec_S
      "fst (addSuccess (new_Plugins []) plugin_B in_spec_S)"]
  note u = assertion_shapes [of "new_Plugins []" plugin_B ?i _ "JStr ''x''"
      "fst (addFailure (new_Plugins []) plugin_B (JStr ''x'') ?i)"]
  note v = assertion_shapes [of _ _ _ _ _ _
      "[(conf_named ''B'', plugin_with ''setup'' (\<lambda>args. Returns JUndefined)),
        (conf_named ''C'', plugin_with ''setup'' (\<lambda>args. Returns JUndefined))]"
      "[OpAddSuccess plugin_B in_spec_S, OpAddSuccess plugin_B in_spec_S,
        OpAddFailure plugin_C (JStr ''x'') in_spec_S]"]
  have c: "assertions (fst (addSuccess (new_Plugins []) plugin_B in_spec_S)) =
     [(''S'', [\<lparr>passed = True, errorMsg = None, stackTrace = None\<rparr>])]"
    using t a by (simp add: k1 st push_assertion_def)
  have d: "assertions (fst (addFailure (new_Plugins []) plugin_B (JStr ''x'') ?i)) =
     [(''B Plugin Tests'',
       [\<lparr>passed = False, errorMsg = Some (JStr ''x''), stackTrace = Some (JStr ''at f'')\<rparr>])]"
    using u b by (simp add: nB st push_assertion_def info_of_def)
  have e: "list_all well_shaped (all_assertions (assertions scenario_S))"
    using v unfolding scenario_S_def list_all_iff by blast
  from a b c d e show ?thesis by blast
qed

subsection \<open>The array of a dispatch\<close>

lemma initial_promise_Fulfilled:
  "initial_promise f args fail p = Fulfilled v \<Longrightarrow> v = hook_result f args fail p"
  by (cases "invoke p f args") (auto simp: initial_promise_def hook_result_def)

lemma settled_initial_Fulfilled:
  "settled_promise r fail (initial_promise f args fail p) = Fulfilled v \<Longrightarrow>
   v = hook_result f args fail p"
proof (cases "invoke p f args")
  case (Awaitable st)
  assume "settled_promise r fail (initial_promise f args fail p) = Fulfilled v"
  then show ?thesis using Awaitable
    by (cases st) (auto simp: initial_promise_def hook_result_def split: if_splits)
qed (auto simp: initial_promise_def hook_result_def)

lemma pluginFunFactory_Inr:
  assumes "pluginFunFactory f pt fail s args = (s', Inr cs)"
  shows "map callee cs = filter (has_hook f) (pluginObjs s)"
    and "map promise cs = map (initial_promise f args fail) (filter (has_hook f) (pluginObjs s))"
  using forEach_pluginObj_Inr [OF assms [unfolded pluginFunFactory_def]]
  by (simp_all add: comp_def)

lemma run_schedule_promises:
  "map promise (snd (run_schedule f fail s cs sched)) =
     map (\<lambda>(i, a). if i \<in> set sched then settled_promise (resultsReported s) fail a else a)
         (enumerate 0 (map promise cs))"
  using run_schedule_eq [of f fail s cs sched] by (cases "run_schedule f fail s cs sched") simp

text \<open>
  Claim C5. When the dispatch function for the hook \<open>f\<close> returns its combined awaitable,
  the entries of its \<^verbatim>\<open>promises\<close> array are those of the plugins that define \<open>f\<close>, in
  registration order; the plugins that do not define \<open>f\<close> have no part in the dispatch
  (it is the dispatch over the defining plugins alone). In whatever order the awaitables
  of the hooks complete, if the combined awaitable is fulfilled, its array holds the
  results of exactly those plugins, in registration order; and the state of the array
  depends only on which awaitables have completed, not on the order.
\<close>

theorem dispatch_order:
  assumes "pluginFunFactory f pt fail s args = (s', Inr cs)"
  shows "map callee cs = filter (has_hook f) (pluginObjs s) \<and>
         (\<forall>sched vs.
            promise_all (map promise (snd (run_schedule f fail s' cs sched))) = AllFulfilled vs \<longrightarrow>
            vs = map (hook_result f args fail) (filter (has_hook f) (pluginObjs s))) \<and>
         (\<forall>sched sched'. set sched = set sched' \<longrightarrow>
            map promise (snd (run_schedule f fail s' cs sched)) =
            map promise (snd (run_schedule f fail s' cs sched'))) \<and>
         forEach_pluginObj s f args pt fail (pluginObjs s) [] =
           forEach_pluginObj s f args pt fail (filter (has_hook f) (pluginObjs s)) []"
proof (intro conjI allI impI)
  let ?ps = "filter (has_hook f) (pluginObjs s)"
  note I = pluginFunFactory_Inr [OF assms]
  show "map callee cs = ?ps" by (rule I(1))
  show "forEach_pluginObj s f args pt fail (pluginObjs s) [] =
        forEach_pluginObj s f args pt fail ?ps []"
    by (rule forEach_pluginObj_filter)
  {
    fix sched sched' :: "nat list"
    assume "set sched = set sched'"
    then show "map promise (snd (run_schedule f fail s' cs sched)) =
               map promise (snd (run_schedule f fail s' cs sched'))"
      by (simp add: run_schedule_promises)
  }
  {
    fix sched vs
    assume "promise_all (map promise (snd (run_schedule f fail s' cs sched))) = AllFulfilled vs"
    then have eq: "map (\<lambda>(i, a). if i \<in> set sched
                                 then settled_promise (resultsReported s') fail a else a)
                     (enumerate 0 (map (initial_promise f args fail) ?ps)) = map Fulfilled vs"
      unfolding run_schedule_promises I(2) by (rule promise_all_AllFulfilled)
    show "vs = map (hook_result f args fail) ?ps"
    proof (rule nth_equalityI)
      show len: "length vs = length (map (hook_result f args fail) ?ps)"
        using arg_cong [OF eq, of length] by simp
      fix i assume "i < length vs"
      then have i: "i < length ?ps" using len by simp
      have "map Fulfilled vs ! i =
              (if i \<in> set sched
               then settled_promise (resultsReported s') fail (initial_promise f args fail (?ps ! i))
               else initial_promise f args fail (?ps ! i))"
        unfolding eq [symmetric] using i by (simp add: nth_enumerate_eq)
      then have "vs ! i = hook_result f args fail (?ps ! i)"
        using \<open>i < length vs\<close> initial_promise_Fulfilled settled_initial_Fulfilled
        by (metis nth_map)
      then show "vs ! i = map (hook_result f args fail) ?ps ! i" using i by simp
    qed
  }
qed

subsection \<open>The fail values\<close>

lemma thrown_entry:
  assumes "pluginFunFactory f pt fail s args = (s', Inr cs)"
    and "i < length cs"
    and "invoke (callee (cs ! i)) f args = Throws e"
  shows "promise (cs ! i) = Fulfilled fail"
    and "promise_all (map promise (snd (run_schedule f fail s' cs sched))) = AllFulfilled vs
         \<Longrightarrow> vs ! i = fail"
proof -
  note I = pluginFunFactory_Inr [OF assms(1)]
  let ?ps = "filter (has_hook f) (pluginObjs s)"
  have len: "length ?ps = length cs" using I(1) by (metis length_map)
  have c: "callee (cs ! i) = ?ps ! i" using I(1) assms(2) by (metis nth_map)
  have "promise (cs ! i) = initial_promise f args fail (?ps ! i)"
    using I(2) assms(2) len by (metis nth_map)
  then show p: "promise (cs ! i) = Fulfilled fail"
    using assms(3) c by (simp add: initial_promise_def)
  assume "promise_all (map promise (snd (run_schedule f fail s' cs sched))) = AllFulfilled vs"
  then have eq: "map (\<lambda>(i, a). if i \<in> set sched
                                 then settled_promise (resultsReported s') fail a else a)
                     (enumerate 0 (map promise cs)) = map Fulfilled vs"
    unfolding run_schedule_promises by (rule promise_all_AllFulfilled)
  have lv: "length vs = length cs" using arg_cong [OF eq, of length] by simp
  have "map Fulfilled vs ! i =
          (if i \<in> set sched then settled_promise (resultsReported s') fail (promise (cs ! i))
           else promise (cs ! i))"
    unfolding eq [symmetric] using assms(2) by (simp add: nth_enumerate_eq)
  then show "vs ! i = fail" using p lv assms(2) by (auto split: if_splits)
qed

lemma thrown_entry_all:
  "pluginFunFactory f pt fail s args = (s', Inr cs) \<and> i < length cs \<and>
   invoke (callee (cs ! i)) f args = Throws e \<longrightarrow>
     promise (cs ! i) = Fulfilled fail \<and>
     (\<forall>sched vs.
        promise_all (map promise (snd (run_schedule f fail s' cs sched))) = AllFulfilled vs
          \<longrightarrow> vs ! i = fail)"
  using thrown_entry [of f pt fail s args s' cs i e] by blast

text \<open>
  Claim C8. \<^verbatim>\<open>waitForCondition\<close> is dispatched with the fail value \<^verbatim>\<open>true\<close>, the seven other
  dispatch points with \<^verbatim>\<open>undefined\<close>. So when the dispatch returns its combined awaitable,
  the entry of a plugin whose \<^verbatim>\<open>waitForCondition\<close> hook threw is fulfilled with \<^verbatim>\<open>true\<close>, and
  \<^verbatim>\<open>true\<close> stands at its position in the array the combined awaitable is fulfilled with; at
  the other dispatch points it is \<^verbatim>\<open>undefined\<close>.
\<close>

theorem waitForCondition_fail_value:
  "(waitForCondition s args = (s', Inr cs) \<and> i < length cs \<and>
    invoke (callee (cs ! i)) ''waitForCondition'' args = Throws e \<longrightarrow>
      promise (cs ! i) = Fulfilled (JBool True) \<and>
      (\<forall>sched vs.
         promise_all (map promise (snd (run_schedule ''waitForCondition'' (JBool True) s' cs sched)))
           = AllFulfilled vs \<longrightarrow> vs ! i = JBool True)) \<and>
   (\<forall>(d, f) \<in> set [(setupHook, ''setup''), (teardown, ''teardown''),
                     (postResults, ''postResults''), (postTest, ''postTest''),
                     (onPageLoad, ''onPageLoad''), (onPageStable, ''onPageStable''),
                     (waitForPromise, ''waitForPromise'')].
      d s args = (s', Inr cs) \<and> i < length cs \<and> invoke (callee (cs ! i)) f args = Throws e \<longrightarrow>
        promise (cs ! i) = Fulfilled JUndefined \<and>
        (\<forall>sched vs.
           promise_all (map promise (snd (run_schedule f JUndefined s' cs sched)))
             = AllFulfilled vs \<longrightarrow> vs ! i = JUndefined))"
proof -
  have G: "\<And>f pt fail. pluginFunFactory f pt fail s args = (s', Inr cs) \<and> i < length cs \<and>
      invoke (callee (cs ! i)) f args = Throws e \<longrightarrow>
     promise (cs ! i) = Fulfilled fail \<and>
     (\<forall>sched vs.
        promise_all (map promise (snd (run_schedule f fail s' cs sched))) = AllFulfilled vs
          \<longrightarrow> vs ! i = fail)"
    by (rule thrown_entry_all)
  show ?thesis
    unfolding waitForCondition_def setupHook_def teardown_def postResults_def postTest_def
      onPageLoad_def onPageStable_def waitForPromise_def list.set ball_simps prod.case
    by (intro conjI G TrueI)
qed

subsection \<open>Causes without properties or without a message\<close>

lemmas example_defs =
  new_Plugins_def Let_def annotatePluginObj_def plugin_with_def conf_named_def
  or_str_def truthy_str_def str_of_def string_of_nat.simps

lemma Plugins_A_state:
  "pluginObjs (Plugins_A h) = [plugin_A h]"
  "assertions (Plugins_A h) = []"
  "\<not> resultsReported (Plugins_A h)"
  "\<not> holds_inherited (Plugins_A h)"
  by (simp_all add: Plugins_A_def plugin_A_def new_Plugins_def Let_def)

lemma plugin_A_fields:
  "name (plugin_A h) = Some ''A''"
  "hooks (plugin_A h) ''setup'' = Some h"
  "invoke (plugin_A h) ''setup'' args = h args"
  by (simp_all add: plugin_A_def invoke_def example_defs)

text \<open>
  Claim C1. The awaitable of \<^verbatim>\<open>safeCallPluginFun\<close> is meant to be fulfilled whatever the
  hook does. For a hook that throws \<^verbatim>\<open>undefined\<close> it is not: \<^verbatim>\<open>logError\<close> reads
  \<^verbatim>\<open>e.message\<close>, which raises a \<^verbatim>\<open>TypeError\<close> inside the \<^verbatim>\<open>catch\<close> block, and the exception
  leaves \<^verbatim>\<open>safeCallPluginFun\<close>. For a hook that returns an awaitable rejected with
  \<^verbatim>\<open>undefined\<close> the rejection handler raises in the same way, and the awaitable that was
  returned is never settled.
\<close>

theorem throw_undefined_escapes:
  "safeCallPluginFun (Plugins_A (\<lambda>args. Throws JUndefined)) (plugin_A (\<lambda>args. Throws JUndefined))
      ''setup'' [] Q JUndefined
     = (Plugins_A (\<lambda>args. Throws JUndefined), Inl TypeError) \<and>
   safeCallPluginFun (Plugins_A (\<lambda>args. Awaitable (Rejects JUndefined)))
      (plugin_A (\<lambda>args. Awaitable (Rejects JUndefined))) ''setup'' [] Q JUndefined
     = (Plugins_A (\<lambda>args. Awaitable (Rejects JUndefined)), Inr (Pending (Rejects JUndefined))) \<and>
   hookSettled (Plugins_A (\<lambda>args. Awaitable (Rejects JUndefined)))
      (plugin_A (\<lambda>args. Awaitable (Rejects JUndefined))) ''setup'' JUndefined (Rejects JUndefined)
     = (Plugins_A (\<lambda>args. Awaitable (Rejects JUndefined)), Stalled)"
  by (simp add: safeCallPluginFun_def hookSettled_def plugin_A_fields logError_def)

text \<open>
  Claim C3. Before the results are reported, the \<^verbatim>\<open>setup\<close> hook of plugin A throws the
  string \<^verbatim>\<open>'boom'\<close>, a cause without a \<^verbatim>\<open>message\<close>. The failed assertion that is recorded
  carries the message "Failure during setup: undefined", not "Failure during setup: boom":
  in \<^verbatim>\<open>'Failure during ' + funName + ': ' + e.message || e\<close> the fallback applies to the whole
  concatenation, which is never empty. The branch of \<^verbatim>\<open>logError\<close> taken after the
  results are reported, written \<^verbatim>\<open>(e.message || e)\<close>, prints "Failure during setup: boom"
  for the same cause.
\<close>

theorem fallback_applies_to_whole_message:
  "setupHook (Plugins_A (\<lambda>args. Throws (JStr ''boom''))) [] =
     ((Plugins_A (\<lambda>args. Throws (JStr ''boom'')))
        \<lparr>assertions :=
           [(''A Plugin Tests'',
             [\<lparr>passed = False,
               errorMsg = Some (JStr ''Failure during setup: undefined''),
               stackTrace = None\<rparr>])]\<rparr>,
      Inr [\<lparr>callee = plugin_A (\<lambda>args. Throws (JStr ''boom'')), promise = Fulfilled JUndefined\<rparr>]) \<and>
   logError ((Plugins_A (\<lambda>args. Throws (JStr ''boom'')))\<lparr>resultsReported := True\<rparr>)
       (plugin_A (\<lambda>args. Throws (JStr ''boom''))) ''setup'' JUndefined (JStr ''boom'') =
     ((Plugins_A (\<lambda>args. Throws (JStr ''boom'')))
        \<lparr>resultsReported := True,
         logged := logged (Plugins_A (\<lambda>args. Throws (JStr ''boom''))) @
           [LogInfo [red, [CHR 0x09], ''Fail: '', ''A Runtime'', normalColor],
            LogError ([CHR 0x09, CHR 0x09] @ ''Failure during setup: boom'')]\<rparr>,
      Inr JUndefined)"
  by (simp add: setupHook_def pluginFunFactory_def Plugins_A_state plugin_A_fields
      safeCallPluginFun_def logError_def addFailure_def addAssertion_def js_or_def Let_def
      info_of_def or_str_def truthy_str_def str_of_def push_assertion_def inherited_keys_def)

text \<open>
  Claim C4. A \<^verbatim>\<open>setup\<close> hook that throws \<^verbatim>\<open>undefined\<close> and one that returns an awaitable
  rejected with \<^verbatim>\<open>undefined\<close> do not end the same way: in the first case the dispatch
  itself raises a \<^verbatim>\<open>TypeError\<close>; in the second it returns, the completion of the hook's
  awaitable leaves the entry unsettled for good, and the combined awaitable is never
  settled. No failed assertion is recorded in either case.
\<close>

theorem throw_and_reject_undefined_differ:
  "setupHook (Plugins_A (\<lambda>args. Throws JUndefined)) [] =
     (Plugins_A (\<lambda>args. Throws JUndefined), Inl TypeError) \<and>
   setupHook (Plugins_A (\<lambda>args. Awaitable (Rejects JUndefined))) [] =
     (Plugins_A (\<lambda>args. Awaitable (Rejects JUndefined)),
      Inr [\<lparr>callee = plugin_A (\<lambda>args. Awaitable (Rejects JUndefined)),
            promise = Pending (Rejects JUndefined)\<rparr>]) \<and>
   run_schedule ''setup'' JUndefined (Plugins_A (\<lambda>args. Awaitable (Rejects JUndefined)))
      [\<lparr>callee = plugin_A (\<lambda>args. Awaitable (Rejects JUndefined)),
        promise = Pending (Rejects JUndefined)\<rparr>] [0] =
     (Plugins_A (\<lambda>args. Awaitable (Rejects JUndefined)),
      [\<lparr>callee = plugin_A (\<lambda>args. Awaitable (Rejects JUndefined)), promise = Stalled\<rparr>]) \<and>
   promise_all [Stalled] = NotSettled"
  by (simp add: setupHook_def pluginFunFactory_def Plugins_A_state plugin_A_fields
      safeCallPluginFun_def logError_def run_schedule_def settle_call_def hookSettled_def)

subsection \<open>Dispatches of the example plugins\<close>

lemma logError_name:
  assumes "name p = name p'"
  shows "logError s p f fail e = logError s p' f fail e"
proof (cases "nullish e")
  case True
  then show ?thesis by (simp add: logError_nullish)
next
  case False
  show ?thesis
  proof (cases "resultsReported s")
    case True
    show ?thesis unfolding logError_reported [OF True False] assms ..
  next
    case F: False
    show ?thesis unfolding logError_open [OF F False] assms ..
  qed
qed

text \<open>For a cause on which \<^verbatim>\<open>logError\<close> does not raise, throwing it and rejecting with it
  end in the same state, with the awaitable fulfilled with the fail value.\<close>

lemma throw_and_reject_agree:
  assumes "invoke p f args = Throws e" and "invoke p' f args = Awaitable (Rejects e)"
    and "name p' = name p" and "\<not> raises (resultsReported s) e"
  shows "safeCallPluginFun s p f args pt fail = (fst (logError s p f fail e), Inr (Fulfilled fail))"
    and "safeCallPluginFun s p' f args pt fail = (s, Inr (Pending (Rejects e)))"
    and "hookSettled s p' f fail (Rejects e) = (fst (logError s p f fail e), Fulfilled fail)"
  using assms logError_name [of p' p s f fail e]
  by (simp_all add: safeCallPluginFun_cases hookSettled_eq)

lemma trio_state:
  "pluginObjs trio =
     [plugin_P1,
      annotatePluginObj (plugin_with ''teardown'' (\<lambda>args. Returns JUndefined)) (conf_named ''P2'') 1,
      plugin_P3]"
  "assertions trio = []"
  "\<not> resultsReported trio"
  by (simp_all add: trio_def plugin_P1_def plugin_P3_def new_Plugins_def Let_def numeral_2_eq_2)

lemma trio_dispatch: "pluginFunFactory ''setup'' Q JUndefined trio [] = (trio, Inr trio_calls)"
  by (simp add: pluginFunFactory_def trio_state trio_calls_def safeCallPluginFun_def invoke_def
      plugin_P1_def plugin_P3_def annotatePluginObj_def plugin_with_def)

lemma boom_benign: "\<not> raises r boom"
  by (simp add: raises_def nullish_def boom_def prop_of_def)

lemma trio_settled:
  "set sched = {0, 1} \<Longrightarrow>
   promise_all (map promise (snd (run_schedule ''setup'' JUndefined trio trio_calls sched))) =
     AllFulfilled [JStr ''a'', JUndefined]"
  by (simp add: run_schedule_promises trio_calls_def enumerate_eq_zip upt_rec boom_benign)

theorem dispatch_order_witness:
  "pluginFunFactory ''setup'' Q JUndefined trio [] = (trio, Inr trio_calls) \<and>
   map callee trio_calls = [plugin_P1, plugin_P3] \<and>
   promise_all (map promise (snd (run_schedule ''setup'' JUndefined trio trio_calls [1, 0]))) =
     AllFulfilled [JStr ''a'', JUndefined] \<and>
   promise_all (map promise (snd (run_schedule ''setup'' JUndefined trio trio_calls [0, 1]))) =
     AllFulfilled [JStr ''a'', JUndefined] \<and>
   map (hook_result ''setup'' [] JUndefined) (filter (has_hook ''setup'') (pluginObjs trio)) =
     [JStr ''a'', JUndefined]"
proof -
  note d = dispatch_order [OF trio_dispatch]
  have a: "promise_all (map promise (snd (run_schedule ''setup'' JUndefined trio trio_calls [1, 0]))) =
     AllFulfilled [JStr ''a'', JUndefined]"
    by (rule trio_settled) auto
  have b: "promise_all (map promise (snd (run_schedule ''setup'' JUndefined trio trio_calls [0, 1]))) =
     AllFulfilled [JStr ''a'', JUndefined]"
    by (rule trio_settled) auto
  have c: "map (hook_result ''setup'' [] JUndefined) (filter (has_hook ''setup'') (pluginObjs trio)) =
     [JStr ''a'', JUndefined]"
    by (rule sym) (rule conjunct1 [OF conjunct2 [OF d], THEN spec, THEN spec, THEN mp, OF a])
  have e: "map callee trio_calls = [plugin_P1, plugin_P3]"
    by (simp add: trio_calls_def)
  from trio_dispatch a b c e show ?thesis by blast
qed

lemma Plugins_W_state:
  "pluginObjs Plugins_W = [plugin_W]"
  "assertions Plugins_W = []"
  "\<not> resultsReported Plugins_W"
  by (simp_all add: Plugins_W_def plugin_W_def new_Plugins_def Let_def)

lemma plugin_W_fields:
  "name plugin_W = Some ''W''"
  "hooks plugin_W ''waitForCondition'' = Some (\<lambda>args. Throws boom)"
  "invoke plugin_W ''waitForCondition'' args = Throws boom"
  by (simp_all add: plugin_W_def invoke_def example_defs)

lemma Plugins_W_dispatch:
  "waitForCondition Plugins_W [] =
     (fst (waitForCondition Plugins_W []), Inr [\<lparr>callee = plugin_W, promise = Fulfilled (JBool True)\<rparr>])"
proof -
  have "snd (waitForCondition Plugins_W []) =
          Inr [\<lparr>callee = plugin_W, promise = Fulfilled (JBool True)\<rparr>]"
    by (simp add: waitForCondition_def pluginFunFactory_def Plugins_W_state plugin_W_fields
        safeCallPluginFun_cases boom_benign)
  then show ?thesis by (metis prod.collapse)
qed

lemma Plugins_A_boom_dispatch:
  "setupHook (Plugins_A (\<lambda>args. Throws boom)) [] =
     (fst (setupHook (Plugins_A (\<lambda>args. Throws boom)) []),
      Inr [\<lparr>callee = plugin_A (\<lambda>args. Throws boom), promise = Fulfilled JUndefined\<rparr>])"
proof -
  have "snd (setupHook (Plugins_A (\<lambda>args. Throws boom)) []) =
          Inr [\<lparr>callee = plugin_A (\<lambda>args. Throws boom), promise = Fulfilled JUndefined\<rparr>]"
    by (simp add: setupHook_def pluginFunFactory_def Plugins_A_state plugin_A_fields
        safeCallPluginFun_cases boom_benign)
  then show ?thesis by (metis prod.collapse)
qed

theorem waitForCondition_fail_value_witness:
  "waitForCondition Plugins_W [] =
     (fst (waitForCondition Plugins_W []), Inr [\<lparr>callee = plugin_W, promise = Fulfilled (JBool True)\<rparr>]) \<and>
   invoke plugin_W ''waitForCondition'' [] = Throws boom \<and>
   promise_all (map promise (snd (run_schedule ''waitForCondition'' (JBool True)
       (fst (waitForCondition Plugins_W []))
       [\<lparr>callee = plugin_W, promise = Fulfilled (JBool True)\<rparr>] []))) = AllFulfilled [JBool True] \<and>
   [JBool True] ! 0 = JBool True \<and>
   setupHook (Plugins_A (\<lambda>args. Throws boom)) [] =
     (fst (setupHook (Plugins_A (\<lambda>args. Throws boom)) []),
      Inr [\<lparr>callee = plugin_A (\<lambda>args. Throws boom), promise = Fulfilled JUndefined\<rparr>]) \<and>
   invoke (plugin_A (\<lambda>args. Throws boom)) ''setup'' [] = Throws boom"
proof -
  let ?cs = "[\<lparr>callee = plugin_W, promise = Fulfilled (JBool True)\<rparr>]"
  have p: "promise_all (map promise (snd (run_schedule ''waitForCondition'' (JBool True)
       (fst (waitForCondition Plugins_W [])) ?cs []))) = AllFulfilled [JBool True]"
    by (simp add: run_schedule_def)
  have i: "invoke (callee (?cs ! 0)) ''waitForCondition'' [] = Throws boom"
    by (simp add: plugin_W_fields)
  note t = waitForCondition_fail_value [of Plugins_W "[]" "fst (waitForCondition Plugins_W [])" ?cs 0 boom]
  have len: "0 < length ?cs" by simp
  have H: "waitForCondition Plugins_W [] = (fst (waitForCondition Plugins_W []), Inr ?cs) \<and>
           0 < length ?cs \<and> invoke (callee (?cs ! 0)) ''waitForCondition'' [] = Throws boom"
    by (intro conjI Plugins_W_dispatch len i)
  note r = conjunct1 [OF t, THEN mp, OF H]
  have "[JBool True] ! 0 = JBool True"
    by (rule conjunct2 [OF r, THEN spec, THEN spec, THEN mp, OF p])
  then show ?thesis
    using Plugins_W_dispatch Plugins_A_boom_dispatch p by (simp add: plugin_W_fields plugin_A_fields)
qed

subsection \<open>When the awaitable is fulfilled\<close>

lemma safeCallPluginFun_settles:
  "invoke p f args = Returns v \<Longrightarrow>
     safeCallPluginFun s p f args pt fail = (s, Inr (Fulfilled v))"
  "invoke p f args = Awaitable (Resolves v) \<Longrightarrow>
     safeCallPluginFun s p f args pt fail = (s, Inr (Pending (Resolves v))) \<and>
     hookSettled s' p f fail (Resolves v) = (s', Fulfilled v)"
  "invoke p f args = Throws e \<Longrightarrow> \<not> raises (resultsReported s) e \<Longrightarrow>
     snd (safeCallPluginFun s p f args pt fail) = Inr (Fulfilled fail)"
  "invoke p f args = Awaitable (Rejects e) \<Longrightarrow> \<not> raises (resultsReported s') e \<Longrightarrow>
     safeCallPluginFun s p f args pt fail = (s, Inr (Pending (Rejects e))) \<and>
     snd (hookSettled s' p f fail (Rejects e)) = Fulfilled fail"
  by (simp_all add: safeCallPluginFun_cases hookSettled_eq)

lemma never_rejected:
  "snd (safeCallPluginFun s p f args pt fail) \<noteq> Inr (Rejected e)"
  "snd (hookSettled s p f fail st) \<noteq> Rejected e"
proof -
  show "snd (safeCallPluginFun s p f args pt fail) \<noteq> Inr (Rejected e)"
    by (cases "invoke p f args") (simp_all add: safeCallPluginFun_cases)
  show "snd (hookSettled s p f fail st) \<noteq> Rejected e"
  proof (cases st)
    case (Resolves v)
    then show ?thesis by (simp add: hookSettled_eq)
  next
    case (Rejects x)
    then show ?thesis by (simp add: hookSettled_eq)
  qed
qed

text \<open>The run of the specification: the \<^verbatim>\<open>setup\<close> of plugin A throws \<^verbatim>\<open>new Error('boom')\<close>.\<close>

lemma boom_scenario:
  "setupHook (Plugins_A (\<lambda>args. Throws boom)) [] =
     ((Plugins_A (\<lambda>args. Throws boom))
        \<lparr>assertions :=
           [(''A Plugin Tests'',
             [\<lparr>passed = False,
               errorMsg = Some (JStr ''Failure during setup: boom''),
               stackTrace = Some (JStr ''Error: boom'')\<rparr>])]\<rparr>,
      Inr [\<lparr>callee = plugin_A (\<lambda>args. Throws boom), promise = Fulfilled JUndefined\<rparr>])"
  by (simp add: setupHook_def pluginFunFactory_def Plugins_A_state plugin_A_fields
      safeCallPluginFun_def logError_def addFailure_def addAssertion_def js_or_def Let_def
      info_of_def or_str_def truthy_str_def str_of_def push_assertion_def boom_def inherited_keys_def)

text \<open>After the results are reported, the same failure is printed with the fallback
  applied to the message part alone.\<close>

lemma reported_fallback:
  "resultsReported s \<Longrightarrow>
   logError s (plugin_A h) ''setup'' fail (JStr ''boom'') =
     (s\<lparr>logged := logged s @
          [LogInfo [red, [CHR 0x09], ''Fail: '', ''A Runtime'', normalColor],
           LogError ([CHR 0x09, CHR 0x09] @ ''Failure during setup: boom'')]\<rparr>, Inr fail)"
  by (simp add: logError_def plugin_A_fields js_or_def Let_def str_of_def)

subsection \<open>When a dispatch returns and settles\<close>

text \<open>A dispatch returns its combined awaitable when no hook throws a cause on which
  \<^verbatim>\<open>logError\<close> raises.\<close>

lemma forEach_pluginObj_returns:
  assumes "\<forall>p \<in> set ps. has_hook f p \<longrightarrow> (\<forall>e. invoke p f args = Throws e \<longrightarrow> \<not> raises R e)"
    and "resultsReported s = R"
  shows "\<exists>s' cs. forEach_pluginObj s f args pt fail ps acc = (s', Inr cs)"
  using assms
proof (induction ps arbitrary: s acc)
  case Nil
  then show ?case by simp
next
  case (Cons p ps)
  have rest: "\<forall>p \<in> set ps. has_hook f p \<longrightarrow> (\<forall>e. invoke p f args = Throws e \<longrightarrow> \<not> raises R e)"
    using Cons.prems(1) by simp
  show ?case
  proof (cases "hooks p f \<noteq> None")
    case False
    then show ?thesis using Cons.IH [OF rest Cons.prems(2), of acc] by simp
  next
    case True
    let ?s1 = "fst (safeCallPluginFun s p f args pt fail)"
    have fr: "resultsReported ?s1 = R"
      by (rule safeCallPluginFun_keeps [of "\<lambda>t. resultsReported t = R"])
         (simp_all add: logError_frame Cons.prems(2))
    have ok: "snd (safeCallPluginFun s p f args pt fail) = Inr (initial_promise f args fail p)"
    proof (cases "invoke p f args")
      case (Throws e)
      then have "\<not> raises (resultsReported s) e"
        using Cons.prems True by (simp add: has_hook_def)
      then show ?thesis using Throws
        by (simp add: safeCallPluginFun_cases initial_promise_def)
    qed (simp_all add: safeCallPluginFun_cases initial_promise_def)
    have "\<exists>s' cs. forEach_pluginObj ?s1 f args pt fail ps
                     (acc @ [\<lparr>callee = p, promise = initial_promise f args fail p\<rparr>]) = (s', Inr cs)"
      by (rule Cons.IH [OF rest fr])
    then show ?thesis using True ok
      by (cases "safeCallPluginFun s p f args pt fail") auto
  qed
qed

lemma dispatch_returns:
  assumes "\<forall>p \<in> set (pluginObjs s). has_hook f p \<longrightarrow>
             (\<forall>e. invoke p f args = Throws e \<longrightarrow> \<not> raises (resultsReported s) e)"
  shows "\<exists>s' cs. pluginFunFactory f pt fail s args = (s', Inr cs)"
  unfolding pluginFunFactory_def using assms by (rule forEach_pluginObj_returns) simp

text \<open>The combined awaitable of a dispatch is never rejected, and it is fulfilled once all
  the awaitables of the hooks have completed, when none of them is rejected with a
  cause on which \<^verbatim>\<open>logError\<close> raises.\<close>

lemma settled_not_Rejected:
  "a \<noteq> Rejected e \<Longrightarrow> settled_promise r fail a \<noteq> Rejected e"
  by (induction r fail a rule: settled_promise.induct) simp_all

lemma initial_not_Rejected: "initial_promise f args fail p \<noteq> Rejected e"
  by (cases "invoke p f args") (simp_all add: initial_promise_def)

lemma dispatch_never_rejected:
  assumes "pluginFunFactory f pt fail s args = (s', Inr cs)"
  shows "promise_all (map promise (snd (run_schedule f fail s' cs sched))) \<noteq> AllRejected e"
proof (rule promise_all_never_rejected, intro ballI allI)
  fix a e'
  assume "a \<in> set (map promise (snd (run_schedule f fail s' cs sched)))"
  then obtain i b where "a = (if i \<in> set sched then settled_promise (resultsReported s') fail b else b)"
    and "b \<in> set (map promise cs)"
    unfolding run_schedule_promises by (auto simp: in_set_enumerate_eq)
  moreover have "b \<noteq> Rejected e'" if "b \<in> set (map promise cs)" for b
    using that pluginFunFactory_Inr(2) [OF assms] initial_not_Rejected by auto
  ultimately show "a \<noteq> Rejected e'" using settled_not_Rejected by auto
qed

lemma dispatch_fulfilled:
  assumes d: "pluginFunFactory f pt fail s args = (s', Inr cs)"
    and all: "{..<length cs} \<subseteq> set sched"
    and ok: "\<And>p e. p \<in> set (pluginObjs s) \<Longrightarrow> has_hook f p \<Longrightarrow>
               invoke p f args = Awaitable (Rejects e) \<Longrightarrow> \<not> raises (resultsReported s') e"
  shows "promise_all (map promise (snd (run_schedule f fail s' cs sched))) =
           AllFulfilled (map (hook_result f args fail) (filter (has_hook f) (pluginObjs s)))"
proof -
  let ?ps = "filter (has_hook f) (pluginObjs s)"
  note I = pluginFunFactory_Inr [OF d]
  have len: "length cs = length ?ps" using I(1) by (metis length_map)
  have "map promise (snd (run_schedule f fail s' cs sched)) =
          map Fulfilled (map (hook_result f args fail) ?ps)"
  proof (rule nth_equalityI)
    show "length (map promise (snd (run_schedule f fail s' cs sched))) =
          length (map Fulfilled (map (hook_result f args fail) ?ps))"
      unfolding run_schedule_promises using len by simp
  next
    fix i assume "i < length (map promise (snd (run_schedule f fail s' cs sched)))"
    then have i: "i < length ?ps" unfolding run_schedule_promises using len by simp
    then have mem: "i \<in> set sched" using all len by auto
    have p: "?ps ! i \<in> set (pluginObjs s)" "has_hook f (?ps ! i)"
      using nth_mem [OF i] by auto
    have "settled_promise (resultsReported s') fail (initial_promise f args fail (?ps ! i)) =
            Fulfilled (hook_result f args fail (?ps ! i))"
    proof (cases "invoke (?ps ! i) f args")
      case (Awaitable st)
      then show ?thesis using ok [OF p]
        by (cases st) (simp_all add: initial_promise_def hook_result_def)
    qed (simp_all add: initial_promise_def hook_result_def)
    then show "map promise (snd (run_schedule f fail s' cs sched)) ! i =
               map Fulfilled (map (hook_result f args fail) ?ps) ! i"
      unfolding run_schedule_promises I(2) using i mem by (simp add: nth_enumerate_eq)
  qed
  then show ?thesis by (simp only: promise_all_map_Fulfilled)
qed

subsection \<open>When the results are not reported\<close>

text \<open>When printing raises, and when \<^verbatim>\<open>getResults\<close> returns.\<close>

lemma print_failures_None: "snd (print_failures lg as) = None \<longleftrightarrow> printable as"
proof (induction as arbitrary: lg)
  case Nil
  then show ?case by simp
next
  case (Cons a as)
  show ?case
  proof (cases "passed a")
    case True
    then show ?thesis using Cons.IH by simp
  next
    case False
    show ?thesis
    proof (cases "stackTrace a")
      case None
      then show ?thesis using False Cons.IH by (simp add: Let_def)
    next
      case (Some st)
      then show ?thesis using False Cons.IH
        by (cases st) (simp_all add: Let_def)
    qed
  qed
qed

lemma all_passed_printable: "foldl (\<lambda>x y. x \<and> y) b (map passed as) \<Longrightarrow> printable as"
proof (induction as arbitrary: b)
  case Nil
  then show ?case by simp
next
  case (Cons a as)
  have "foldl (\<lambda>x y. x \<and> y) False (map passed as) = False" for as :: "assertion list"
    by (induction as) simp_all
  then have "passed a" using Cons.prems by (cases "passed a") simp_all
  then show ?case using Cons by simp
qed

lemma printPluginResults_None:
  "snd (printPluginResults lg rs) = None \<longleftrightarrow> list_all (\<lambda>r. printable (spec_assertions r)) rs"
proof (induction rs arbitrary: lg)
  case Nil
  then show ?case by simp
next
  case (Cons r rs)
  let ?pass = "foldl (\<lambda>x y. x \<and> y) True (map passed (spec_assertions r))"
  let ?l = "lg @ [LogInfo [if ?pass then green else red, [CHR 0x09],
                           if ?pass then ''Pass: '' else ''Fail: '', description r, normalColor]]"
  show ?case
  proof (cases ?pass)
    case True
    then show ?thesis using Cons.IH all_passed_printable [of True "spec_assertions r"]
      by (simp add: Let_def)
  next
    case False
    obtain l2 x where p: "print_failures ?l (spec_assertions r) = (l2, x)"
      by (cases "print_failures ?l (spec_assertions r)")
    have x: "x = None \<longleftrightarrow> printable (spec_assertions r)"
      using print_failures_None [of ?l "spec_assertions r"] p by simp
    show ?thesis
    proof (cases x)
      case None
      then show ?thesis using False p x Cons.IH [of l2] by (simp add: Let_def)
    next
      case (Some e)
      then show ?thesis using False p x by (simp add: Let_def)
    qed
  qed
qed

lemma specResults_collect:
  "specResults (collect_results \<lparr>failedCount = 0, specResults = []\<rparr> store) =
     map (\<lambda>(spec, as). \<lparr>description = spec, spec_assertions = as\<rparr>) store"
  by (simp add: collect_results_eq)

text \<open>\<^verbatim>\<open>getResults\<close> returns exactly when the store holds no inherited value and every failed
  record can be printed; when it raises, the results stay unreported.\<close>

lemma getResults_returns:
  "(\<exists>s' r. getResults s = (s', Inr r)) \<longleftrightarrow>
   \<not> holds_inherited s \<and> list_all (\<lambda>(spec, as). printable as) (assertions s)"
proof (cases "holds_inherited s")
  case True
  then show ?thesis by (simp add: getResults_inherited)
next
  case False
  let ?rs = "specResults (collect_results \<lparr>failedCount = 0, specResults = []\<rparr> (assertions s))"
  obtain l x where p: "printPluginResults (logged s) ?rs = (l, x)"
    by (cases "printPluginResults (logged s) ?rs")
  have "x = None \<longleftrightarrow> list_all (\<lambda>(spec, as). printable as) (assertions s)"
    using printPluginResults_None [of "logged s" ?rs] p
    by (simp add: specResults_collect list_all_iff split_beta)
  then show ?thesis
    using False getResults_unfold [OF False p] by (cases x) simp_all
qed

lemma getResults_raises:
  assumes "snd (getResults s) = Inl x"
  shows "resultsReported (fst (getResults s)) = resultsReported s"
proof (cases "holds_inherited s")
  case True
  then show ?thesis by (simp add: getResults_inherited)
next
  case False
  let ?rs = "specResults (collect_results \<lparr>failedCount = 0, specResults = []\<rparr> (assertions s))"
  obtain l y where p: "printPluginResults (logged s) ?rs = (l, y)"
    by (cases "printPluginResults (logged s) ?rs")
  show ?thesis using assms getResults_unfold [OF False p] by (cases y) simp_all
qed

lemma after_odd_stack_state:
  "assertions after_odd_stack =
     [(''A Plugin Tests'',
       [\<lparr>passed = False, errorMsg = Some (JStr ''Failure during setup: m''),
         stackTrace = Some (JBool True)\<rparr>])]"
  "\<not> resultsReported after_odd_stack"
  "\<not> holds_inherited after_odd_stack"
  by (simp_all add: after_odd_stack_def setupHook_def pluginFunFactory_def Plugins_A_state
      plugin_A_fields safeCallPluginFun_def logError_def addFailure_def addAssertion_def
      js_or_def Let_def info_of_def or_str_def truthy_str_def str_of_def push_assertion_def
      odd_stack_def inherited_keys_def)

lemma getResults_after_odd_stack:
  "getResults after_odd_stack =
     (after_odd_stack
        \<lparr>logged := logged after_odd_stack @
           [LogInfo [red, [CHR 0x09], ''Fail: '', ''A Plugin Tests'', normalColor],
            LogError ([CHR 0x09, CHR 0x09] @ ''Failure during setup: m'')]\<rparr>,
      Inl TypeError)"
  by (simp add: getResults_def after_odd_stack_state Let_def)

text \<open>
  Claim C2, as stated, fails. The \<^verbatim>\<open>setup\<close> hook of plugin A throws
  \<^verbatim>\<open>{message: 'm', stack: true}\<close>; the failed assertion is recorded with the stack trace
  \<^verbatim>\<open>true\<close>. Then \<^verbatim>\<open>getResults\<close> is called: printing that record raises a \<^verbatim>\<open>TypeError\<close>
  (\<^verbatim>\<open>stackTrace.replace\<close> is not a function) before \<^verbatim>\<open>resultsReported\<close> is set. A later
  \<^verbatim>\<open>addSuccess\<close> and a later \<^verbatim>\<open>addFailure\<close> return without throwing.
\<close>

theorem getResults_raises_and_leaves_open:
  "snd (getResults after_odd_stack) = Inl TypeError \<and>
   \<not> resultsReported (fst (getResults after_odd_stack)) \<and>
   snd (addSuccess (fst (getResults after_odd_stack)) (plugin_A (\<lambda>args. Throws odd_stack)) None)
     = Inr () \<and>
   snd (addFailure (fst (getResults after_odd_stack)) (plugin_A (\<lambda>args. Throws odd_stack))
          (JStr ''late'') None) = Inr ()"
  by (simp add: getResults_after_odd_stack after_odd_stack_state addSuccess_def addFailure_def
      addAssertion_def Let_def info_of_def empty_info_def or_str_def truthy_str_def str_of_def
      plugin_A_fields)

text \<open>A second way to the same end: a spec name that every object inherits.\<close>

lemma inherited_name_leaves_open:
  "snd (addSuccess (new_Plugins []) plugin_B
          (Some \<lparr>specName = Some ''constructor'', info_stackTrace = JUndefined\<rparr>)) = Inl TypeError"
  "holds_inherited after_constructor"
  "getResults after_constructor = (after_constructor, Inl TypeError)"
  "snd (addSuccess (fst (getResults after_constructor)) plugin_B in_spec_S) = Inr ()"
proof -
  show 1: "snd (addSuccess (new_Plugins []) plugin_B
          (Some \<lparr>specName = Some ''constructor'', info_stackTrace = JUndefined\<rparr>)) = Inl TypeError"
    by (simp add: addSuccess_def addAssertion_def Let_def info_of_def or_str_def truthy_str_def
        str_of_def new_Plugins_def inherited_keys_def)
  show 2: "holds_inherited after_constructor"
    by (simp add: after_constructor_def addSuccess_def addAssertion_def Let_def info_of_def
        or_str_def truthy_str_def str_of_def new_Plugins_def inherited_keys_def)
  show 3: "getResults after_constructor = (after_constructor, Inl TypeError)"
    using 2 by (rule getResults_inherited)
  have "\<not> resultsReported after_constructor"
    by (simp add: after_constructor_def addSuccess_def addAssertion_def Let_def info_of_def
        or_str_def truthy_str_def str_of_def new_Plugins_def inherited_keys_def)
  then show "snd (addSuccess (fst (getResults after_constructor)) plugin_B in_spec_S) = Inr ()"
    unfolding 3 fst_conv
    by (subst addSuccess_open) (simp_all add: spec_key_def in_spec_S_def info_of_def)
qed

end
